theory Spec2Isabelle
  imports
    Main
    "HOL-Library.Word"
    "HOL-Library.Multiset"
    "HOL-Library.Char_ord"
    "HOL-Library.List_Lexorder"
    "HOL-Library.Sublist"
begin

unbundle bit_operations_syntax

text \<open>
  A model of the cached-certificate operator: the name deriver, the secret materializer,
  the request reconciler and the fan-out reconciler of upstream secrets, over an explicit
  state of the cluster. The definitions come first, in the order of the sources; the
  properties follow.
\<close>

section \<open>Strings and library functions used by the controllers\<close>

text \<open>
  A Go string is a sequence of bytes: \<open>len\<close> counts bytes, \<open>s[:n]\<close> cuts at a byte
  offset and \<open>sort.Strings\<close> orders byte-wise lexicographically (a proper prefix first).
  An Isabelle \<open>string\<close> is a list of 8-bit characters, ordered here by
  \<open>Char_ord\<close> (the byte value) and \<open>List_Lexorder\<close>, so \<open>sort\<close> on
  \<open>string list\<close> is \<open>sort.Strings\<close>.
\<close>

text \<open>\<open>strings.Join(elems, sep)\<close>.\<close>

fun strings_Join :: "string list \<Rightarrow> string \<Rightarrow> string" where
  "strings_Join [] sep = []"
| "strings_Join [x] sep = x"
| "strings_Join (x # y # ys) sep = x @ sep @ strings_Join (y # ys) sep"

text \<open>
  \<open>strings.ReplaceAll(s, old, new)\<close> for a one-byte \<open>old\<close> and a one-byte
  \<open>new\<close>, the only way the controllers call it: every occurrence of the byte is replaced.
\<close>

definition strings_ReplaceAll :: "string \<Rightarrow> char \<Rightarrow> char \<Rightarrow> string" where
  "strings_ReplaceAll s old new = map (\<lambda>c. if c = old then new else c) s"

text \<open>
  \<open>strconv.FormatUint(n, 10)\<close>: the decimal digits of \<open>n\<close>, most significant first,
  no leading zero (\<open>0\<close> is rendered as one digit).
\<close>

definition digit_char :: "nat \<Rightarrow> char" where
  "digit_char d = ''0123456789'' ! d"

function FormatUint10 :: "nat \<Rightarrow> string" where
  "FormatUint10 n =
     (if n < 10 then [digit_char n] else FormatUint10 (n div 10) @ [digit_char (n mod 10)])"
  by pat_completeness auto
termination
  by (relation "measure id") auto

declare FormatUint10.simps [simp del]

text \<open>
  \<open>hash/fnv\<close>, \<open>New64a\<close>: the 64-bit FNV-1a hash. The state starts at the offset
  basis; each byte is xor-ed into the state, which is then multiplied by the FNV prime,
  modulo \<open>2^64\<close>.
\<close>

definition fnv_offset64 :: "64 word" where
  "fnv_offset64 = 14695981039346656037"

definition fnv_prime64 :: "64 word" where
  "fnv_prime64 = 1099511628211"

definition fnv64a_step :: "char \<Rightarrow> 64 word \<Rightarrow> 64 word" where
  "fnv64a_step b h = (h XOR of_char b) * fnv_prime64"

definition fnv64a :: "string \<Rightarrow> 64 word" where
  "fnv64a s = fold fnv64a_step s fnv_offset64"

section \<open>The name deriver (cachedcertificate utilities)\<close>

definition maxSecretNameLength :: nat where
  "maxSecretNameLength = 253"

definition hashPrefixLength :: nat where
  "hashPrefixLength = 128"

text \<open>\<open>genHash\<close>: the FNV-64a sum of the bytes of \<open>s\<close>, in decimal.\<close>

definition genHash :: "string \<Rightarrow> string" where
  "genHash s = FormatUint10 (unat (fnv64a s))"

text \<open>
  \<open>getUpstreamCertificateName\<close> works on two slices: the caller's \<open>dnsNames\<close>
  (a variadic call \<open>f(xs...)\<close> passes the caller's backing array itself) and the local
  \<open>names\<close>, a fresh array from \<open>make\<close>. The frame below holds the contents of both, so
  that which of the two \<open>sort.Strings\<close> reorders is part of the model.
\<close>

record name_frame =
  dnsNames :: "string list"
  names :: "string list"

text \<open>\<open>names := make([]string, len(dnsNames))\<close>: a fresh slice of empty strings.\<close>

definition make_names :: "string list \<Rightarrow> name_frame" where
  "make_names caller = \<lparr>dnsNames = caller, names = replicate (length caller) []\<rparr>"

text \<open>\<open>copy(names, dnsNames)\<close>: the first \<open>min (len names) (len dnsNames)\<close> elements.\<close>

definition copy_names :: "name_frame \<Rightarrow> name_frame" where
  "copy_names f =
     f\<lparr>names := take (length (names f)) (dnsNames f) @ drop (length (dnsNames f)) (names f)\<rparr>"

text \<open>\<open>sort.Strings(names)\<close>: sorts the local slice in place.\<close>

definition sort_names :: "name_frame \<Rightarrow> name_frame" where
  "sort_names f = f\<lparr>names := sort (names f)\<rparr>"

text \<open>The string computed from the sorted local slice.\<close>

definition name_of_sorted :: "string list \<Rightarrow> string" where
  "name_of_sorted ns =
     (let resourceName = strings_Join ns ''-'';
          resourceName = strings_ReplaceAll resourceName (CHR ''*'') (CHR ''x'');
          resourceName =
            (if length resourceName > maxSecretNameLength
             then take (hashPrefixLength - 3) resourceName @ genHash resourceName
             else resourceName);
          resourceName = strings_ReplaceAll resourceName (CHR 0x5C) (CHR ''x'')
      in ''cc-'' @ resourceName)"

text \<open>
  The call: the returned name, together with the contents of the caller's slice when
  the call returns.
\<close>

definition getUpstreamCertificateName_call :: "string list \<Rightarrow> string \<times> string list" where
  "getUpstreamCertificateName_call caller =
     (if length caller = 0 then ([], caller)
      else
        let f = sort_names (copy_names (make_names caller))
        in (name_of_sorted (names f), dnsNames f))"

definition getUpstreamCertificateName :: "string list \<Rightarrow> string" where
  "getUpstreamCertificateName caller = fst (getUpstreamCertificateName_call caller)"


subsection \<open>The name deriver as the specification words it\<close>

text \<open>
  The reference result as the specification describes it: copy and sort, join with
  \<open>-\<close>, replace \<open>*\<close> and the backslash by \<open>x\<close>; when the string so obtained is
  longer than 253, keep its first 125 characters and append the decimal 64-bit hash of that
  same string; prefix \<open>cc-\<close>.
\<close>

definition spec_derived_name :: "string list \<Rightarrow> string" where
  "spec_derived_name xs =
     (let sorted_copy = sort xs;
          joined = strings_Join sorted_copy ''-'';
          replaced = strings_ReplaceAll (strings_ReplaceAll joined (CHR ''*'') (CHR ''x''))
                       (CHR 0x5C) (CHR ''x'');
          body = (if length replaced > 253
                  then take 125 replaced @ FormatUint10 (unat (fnv64a replaced))
                  else replaced)
      in ''cc-'' @ body)"

text \<open>
  The same reference with one change: the hash is taken of the joined string after the
  wildcard replacement and before the backslash replacement.
\<close>

definition spec_derived_name_amended :: "string list \<Rightarrow> string" where
  "spec_derived_name_amended xs =
     (let sorted_copy = sort xs;
          joined = strings_Join sorted_copy ''-'';
          starred = strings_ReplaceAll joined (CHR ''*'') (CHR ''x'');
          replaced = strings_ReplaceAll starred (CHR 0x5C) (CHR ''x'');
          body = (if length replaced > 253
                  then take 125 replaced @ FormatUint10 (unat (fnv64a starred))
                  else replaced)
      in ''cc-'' @ body)"

subsection \<open>Auxiliary functions of the proofs\<close>

text \<open>Reading a decimal rendering back, to show that the rendering loses nothing.\<close>

definition digit_val :: "char \<Rightarrow> nat" where
  "digit_val c = of_char c - 48"

definition parse_decimal :: "string \<Rightarrow> nat" where
  "parse_decimal s = fold (\<lambda>c acc. 10 * acc + digit_val c) s 0"

section \<open>The API types (api/v1alpha1) and the objects of the cluster\<close>

text \<open>
  \<open>CachedCertificateState\<close> is a Go string type with three named constants; any
  string is a value of the type, and the zero value is the empty string.
\<close>

type_synonym CachedCertificateState = string

definition CachedCertificateStatePending :: CachedCertificateState where
  "CachedCertificateStatePending = ''Pending''"

definition CachedCertificateStateSynced :: CachedCertificateState where
  "CachedCertificateStateSynced = ''Synced''"

definition CachedCertificateStateError :: CachedCertificateState where
  "CachedCertificateStateError = ''Error''"

record IssuerRef =
  issuer_Name :: string
  issuer_Kind :: string
  issuer_Group :: string

record ObjectReference =
  ref_Name :: string
  ref_Namespace :: string

text \<open>A nil slice and an empty slice of DNS names are both the empty list.\<close>

record CachedCertificateSpec =
  SecretName :: string
  spec_IssuerRef :: IssuerRef
  DNSNames :: "string list"

record CachedCertificateStatus =
  UpstreamReady :: bool
  UpstreamRef :: "ObjectReference option"
  State :: CachedCertificateState

text \<open>
  A \<open>CachedCertificate\<close>: the type meta (\<open>APIVersion\<close>, \<open>Kind\<close>), the fields of the
  object meta the controllers read (\<open>Name\<close>, \<open>Namespace\<close>, \<open>UID\<close>), the spec and the
  status.
\<close>

record CachedCertificate =
  APIVersion :: string
  Kind :: string
  Name :: string
  Namespace :: string
  UID :: string
  Spec :: CachedCertificateSpec
  Status :: CachedCertificateStatus

text \<open>
  The upstream cert-manager \<open>Certificate\<close> is read as an unstructured document. A
  nested field is absent, present with the wrong type, or present with a value:
  \<open>unstructured.NestedString\<close> and \<open>NestedStringSlice\<close> return \<open>found = false\<close> for
  the first, an error for the second and the value for the third.
\<close>

datatype 'a field = Absent | Malformed | Present 'a

record Certificate =
  crt_Name :: string
  crt_Namespace :: string
  crt_dnsNames :: "string list field"
  crt_issuerRef :: IssuerRef
  crt_secretName :: "string field"

record OwnerReference =
  owner_APIVersion :: string
  owner_Kind :: string
  owner_Name :: string
  owner_UID :: string
  owner_Controller :: "bool option"
  owner_BlockOwnerDeletion :: "bool option"

text \<open>
  A Go map is a partial function; a nil map and an empty map both read as the map
  without keys. \<open>Data\<close> maps a key to its bytes; a key with a nil value is present.
\<close>

record Secret =
  sec_Name :: string
  sec_Namespace :: string
  sec_Labels :: "string \<rightharpoonup> string"
  sec_Annotations :: "string \<rightharpoonup> string"
  sec_OwnerReferences :: "OwnerReference list"
  sec_Type :: string
  sec_Data :: "string \<rightharpoonup> string"

text \<open>Indexing a Go map of strings: the empty string for a missing key.\<close>

definition go_index :: "(string \<rightharpoonup> string) \<Rightarrow> string \<Rightarrow> string" where
  "go_index m k = (case m k of None \<Rightarrow> [] | Some v \<Rightarrow> v)"

text \<open>
  The group of the API, \<open>GroupVersion.Group\<close>. Its declaration is not among the
  sources; the value is the one of the RBAC markers of the controller
  (\<open>groups=cache.weavelab.xyz\<close>) and of the label selector in the README.
\<close>

definition GroupVersion_Group :: string where
  "GroupVersion_Group = ''cache.weavelab.xyz''"

definition SyncedLabelKey :: string where
  "SyncedLabelKey = GroupVersion_Group @ ''/synced-from-cache''"

definition SourceAnnotationKey :: string where
  "SourceAnnotationKey = GroupVersion_Group @ ''/source''"

definition CertificateNameAnnotationKey :: string where
  "CertificateNameAnnotationKey = ''cert-manager.io/certificate-name''"

section \<open>Errors and the cluster behind the client\<close>

text \<open>
  Errors are values. \<open>NotFound\<close> and \<open>AlreadyExists\<close> are the two API status errors
  the store itself decides, \<open>Backend\<close> is any other failure of a call (timeout, conflict,
  refusal), \<open>AccessorError\<close> is the error of an unstructured accessor on a field of the
  wrong type, and \<open>ErrorsNew\<close> is \<open>errors.New\<close> with its message.
\<close>

datatype error = NotFound | AlreadyExists | Backend string | AccessorError | ErrorsNew string

definition IsNotFound :: "error \<Rightarrow> bool" where
  "IsNotFound e = (e = NotFound)"

type_synonym NamespacedName = "string \<times> string"

text \<open>
  The place in \<open>Reconcile\<close> that issues a status update. It is recorded with the call
  so that statements can speak of one particular write; it has no effect on the store.
\<close>

datatype site =
    AfterUpstreamCreate
  | StaleBinding
  | SecretNotFound
  | SecretFetchError
  | UpstreamReadyFlag
  | UpsertFailed
  | FinalSynced

text \<open>The calls the controllers make on the client, with their arguments.\<close>

datatype api_call =
    GetCachedCertificate NamespacedName
  | GetCertificate NamespacedName
  | CreateCertificate Certificate
  | StatusUpdate site NamespacedName CachedCertificateStatus
  | StatusPatch NamespacedName "CachedCertificateState option"
  | ListCachedCertificates string
  | GetSecret NamespacedName
  | CreateSecret Secret
  | UpdateSecret Secret

text \<open>
  The cluster: the stored objects of the three kinds, the calls issued so far (oldest
  first), and the failures still to come: the head of \<open>faults\<close> decides the next call,
  \<open>Some msg\<close> makes it fail with \<open>Backend msg\<close> and leaves the store unchanged, \<open>None\<close>
  (or an exhausted list) lets it through.
\<close>

record world =
  cachedCerts :: "CachedCertificate list"
  certificates :: "Certificate list"
  secrets :: "Secret list"
  faults :: "string option list"
  calls :: "api_call list"

definition cc_key :: "CachedCertificate \<Rightarrow> NamespacedName" where
  "cc_key c = (Namespace c, Name c)"

definition crt_key :: "Certificate \<Rightarrow> NamespacedName" where
  "crt_key c = (crt_Namespace c, crt_Name c)"

definition sec_key :: "Secret \<Rightarrow> NamespacedName" where
  "sec_key s = (sec_Namespace s, sec_Name s)"

text \<open>An object is stored under its own namespace and name; a lookup finds the first.\<close>

definition lookup_obj :: "('a \<Rightarrow> NamespacedName) \<Rightarrow> NamespacedName \<Rightarrow> 'a list \<Rightarrow> 'a option" where
  "lookup_obj key k xs = find (\<lambda>x. key x = k) xs"

definition replace_obj :: "('a \<Rightarrow> NamespacedName) \<Rightarrow> NamespacedName \<Rightarrow> ('a \<Rightarrow> 'a) \<Rightarrow> 'a list \<Rightarrow> 'a list" where
  "replace_obj key k f xs = map (\<lambda>x. if key x = k then f x else x) xs"

text \<open>Issuing a call: it is recorded, and the next pending failure, if any, is consumed.\<close>

definition issue :: "api_call \<Rightarrow> world \<Rightarrow> string option \<times> world" where
  "issue c w =
     (case faults w of
        [] \<Rightarrow> (None, w\<lparr>calls := calls w @ [c]\<rparr>)
      | f # fs \<Rightarrow> (f, w\<lparr>faults := fs, calls := calls w @ [c]\<rparr>))"

definition Get_CachedCertificate :: "NamespacedName \<Rightarrow> world \<Rightarrow> (error + CachedCertificate) \<times> world" where
  "Get_CachedCertificate k w =
     (case issue (GetCachedCertificate k) w of
        (Some msg, w') \<Rightarrow> (Inl (Backend msg), w')
      | (None, w') \<Rightarrow>
          (case lookup_obj cc_key k (cachedCerts w') of
             None \<Rightarrow> (Inl NotFound, w')
           | Some c \<Rightarrow> (Inr c, w')))"

definition Get_Certificate :: "NamespacedName \<Rightarrow> world \<Rightarrow> (error + Certificate) \<times> world" where
  "Get_Certificate k w =
     (case issue (GetCertificate k) w of
        (Some msg, w') \<Rightarrow> (Inl (Backend msg), w')
      | (None, w') \<Rightarrow>
          (case lookup_obj crt_key k (certificates w') of
             None \<Rightarrow> (Inl NotFound, w')
           | Some c \<Rightarrow> (Inr c, w')))"

definition Get_Secret :: "NamespacedName \<Rightarrow> world \<Rightarrow> (error + Secret) \<times> world" where
  "Get_Secret k w =
     (case issue (GetSecret k) w of
        (Some msg, w') \<Rightarrow> (Inl (Backend msg), w')
      | (None, w') \<Rightarrow>
          (case lookup_obj sec_key k (secrets w') of
             None \<Rightarrow> (Inl NotFound, w')
           | Some s \<Rightarrow> (Inr s, w')))"

text \<open>\<open>Create\<close>: refused with \<open>AlreadyExists\<close> when the name is taken.\<close>

definition Create_Certificate :: "Certificate \<Rightarrow> world \<Rightarrow> error option \<times> world" where
  "Create_Certificate c w =
     (case issue (CreateCertificate c) w of
        (Some msg, w') \<Rightarrow> (Some (Backend msg), w')
      | (None, w') \<Rightarrow>
          (case lookup_obj crt_key (crt_key c) (certificates w') of
             Some _ \<Rightarrow> (Some AlreadyExists, w')
           | None \<Rightarrow> (None, w'\<lparr>certificates := certificates w' @ [c]\<rparr>)))"

definition Create_Secret :: "Secret \<Rightarrow> world \<Rightarrow> error option \<times> world" where
  "Create_Secret s w =
     (case issue (CreateSecret s) w of
        (Some msg, w') \<Rightarrow> (Some (Backend msg), w')
      | (None, w') \<Rightarrow>
          (case lookup_obj sec_key (sec_key s) (secrets w') of
             Some _ \<Rightarrow> (Some AlreadyExists, w')
           | None \<Rightarrow> (None, w'\<lparr>secrets := secrets w' @ [s]\<rparr>)))"

text \<open>\<open>Update\<close>: the stored object of that name is replaced as a whole.\<close>

definition Update_Secret :: "Secret \<Rightarrow> world \<Rightarrow> error option \<times> world" where
  "Update_Secret s w =
     (case issue (UpdateSecret s) w of
        (Some msg, w') \<Rightarrow> (Some (Backend msg), w')
      | (None, w') \<Rightarrow>
          (case lookup_obj sec_key (sec_key s) (secrets w') of
             None \<Rightarrow> (Some NotFound, w')
           | Some _ \<Rightarrow> (None, w'\<lparr>secrets := replace_obj sec_key (sec_key s) (\<lambda>_. s) (secrets w')\<rparr>)))"

text \<open>
  \<open>Status().Update\<close>: the status of the stored object is replaced by the status of the
  object in hand; its spec is not written.
\<close>

definition Status_Update :: "site \<Rightarrow> CachedCertificate \<Rightarrow> world \<Rightarrow> error option \<times> world" where
  "Status_Update at c w =
     (case issue (StatusUpdate at (cc_key c) (Status c)) w of
        (Some msg, w') \<Rightarrow> (Some (Backend msg), w')
      | (None, w') \<Rightarrow>
          (case lookup_obj cc_key (cc_key c) (cachedCerts w') of
             None \<Rightarrow> (Some NotFound, w')
           | Some _ \<Rightarrow>
               (None, w'\<lparr>cachedCerts :=
                  replace_obj cc_key (cc_key c) (\<lambda>stored. stored\<lparr>Status := Status c\<rparr>) (cachedCerts w')\<rparr>)))"

text \<open>
  \<open>Status().Patch\<close> with \<open>client.MergeFrom(original)\<close>: the patch is the difference
  between the original and the modified object. The fan-out changes the state only, so the
  difference is the new state, or nothing when the state was the same already. The call is
  sent in both cases; an empty patch leaves the stored object as it is.
\<close>

definition merge_diff :: "CachedCertificate \<Rightarrow> CachedCertificate \<Rightarrow> CachedCertificateState option" where
  "merge_diff original modified =
     (if State (Status original) = State (Status modified) then None
      else Some (State (Status modified)))"

definition Status_Patch :: "CachedCertificate \<Rightarrow> CachedCertificate \<Rightarrow> world \<Rightarrow> error option \<times> world" where
  "Status_Patch original modified w =
     (case issue (StatusPatch (cc_key modified) (merge_diff original modified)) w of
        (Some msg, w') \<Rightarrow> (Some (Backend msg), w')
      | (None, w') \<Rightarrow>
          (case lookup_obj cc_key (cc_key modified) (cachedCerts w') of
             None \<Rightarrow> (Some NotFound, w')
           | Some _ \<Rightarrow>
               (case merge_diff original modified of
                  None \<Rightarrow> (None, w')
                | Some st \<Rightarrow>
                    (None, w'\<lparr>cachedCerts :=
                       replace_obj cc_key (cc_key modified)
                         (\<lambda>stored. stored\<lparr>Status := (Status stored)\<lparr>State := st\<rparr>\<rparr>) (cachedCerts w')\<rparr>))))"

text \<open>
  The field index \<open>status.upstreamRef.name\<close> registered in \<open>SetupWithManager\<close>, and
  \<open>List\<close> with \<open>MatchingFields\<close> on it: the stored objects whose index values contain
  the name.
\<close>

definition certNameIndex :: "CachedCertificate \<Rightarrow> string list" where
  "certNameIndex cert =
     (case UpstreamRef (Status cert) of
        None \<Rightarrow> []
      | Some r \<Rightarrow> if ref_Name r \<noteq> [] then [ref_Name r] else [])"

definition List_CachedCertificates :: "string \<Rightarrow> world \<Rightarrow> (error + CachedCertificate list) \<times> world" where
  "List_CachedCertificates certName w =
     (case issue (ListCachedCertificates certName) w of
        (Some msg, w') \<Rightarrow> (Inl (Backend msg), w')
      | (None, w') \<Rightarrow> (Inr (filter (\<lambda>c. certName \<in> set (certNameIndex c)) (cachedCerts w')), w'))"


section \<open>The controller's helpers (cachedcertificate utilities)\<close>

text \<open>
  \<open>validateSecret\<close>: a nil secret, or one whose data lacks \<open>tls.crt\<close> or
  \<open>tls.key\<close>, is refused; \<open>ca.crt\<close> is not looked at.
\<close>

definition validateSecret :: "Secret option \<Rightarrow> error option" where
  "validateSecret secret =
     (case secret of
        None \<Rightarrow> Some (ErrorsNew ''secret cannot be nil'')
      | Some s \<Rightarrow>
          if sec_Data s ''tls.crt'' = None then Some (ErrorsNew ''tls.cert not found'')
          else if sec_Data s ''tls.key'' = None then Some (ErrorsNew ''tls.key not found'')
          else None)"

text \<open>
  \<open>metav1.NewControllerRef(owner, owner.GroupVersionKind())\<close>: the reference names
  the owner by the API version and kind of its type meta, its name and its UID, and sets
  both \<open>Controller\<close> and \<open>BlockOwnerDeletion\<close> to true.
\<close>

definition NewControllerRef :: "CachedCertificate \<Rightarrow> OwnerReference" where
  "NewControllerRef owner =
     \<lparr>owner_APIVersion = APIVersion owner,
      owner_Kind = Kind owner,
      owner_Name = Name owner,
      owner_UID = UID owner,
      owner_Controller = Some True,
      owner_BlockOwnerDeletion = Some True\<rparr>"

text \<open>\<open>genSecretForSync\<close>; a nil pointer argument is \<open>None\<close>.\<close>

definition genSecretForSync ::
    "CachedCertificate option \<Rightarrow> Certificate option \<Rightarrow> Secret option \<Rightarrow> error + Secret" where
  "genSecretForSync cachedCert upstreamCert upstreamSecret =
     (case cachedCert of
        None \<Rightarrow> Inl (ErrorsNew ''a CachedCertificate is required for secret generation'')
      | Some cc \<Rightarrow>
     (case upstreamCert of
        None \<Rightarrow> Inl (ErrorsNew ''an upstream Certificate is required for secret generation'')
      | Some uc \<Rightarrow>
     (case upstreamSecret of
        None \<Rightarrow> Inl (ErrorsNew ''an upstream Secret is required for secret generation'')
      | Some us \<Rightarrow>
          let secret =
                \<lparr>sec_Name = SecretName (Spec cc),
                 sec_Namespace = Namespace cc,
                 sec_Labels = sec_Labels us,
                 sec_Annotations = sec_Annotations us,
                 sec_OwnerReferences = [NewControllerRef cc],
                 sec_Type = sec_Type us,
                 sec_Data = sec_Data us\<rparr>;
              secret = secret\<lparr>sec_Labels := (sec_Labels secret)(SyncedLabelKey \<mapsto> ''true'')\<rparr>;
              secret = secret\<lparr>sec_Annotations :=
                         (sec_Annotations secret)(SourceAnnotationKey \<mapsto> Namespace cc @ ''/'' @ Name cc)\<rparr>
          in Inr secret)))"

text \<open>
  \<open>slicesEqualAfterSort\<close>: different lengths are unequal; one element each is compared
  directly; otherwise sorted copies are compared index by index.
\<close>

definition slicesEqualAfterSort :: "string list \<Rightarrow> string list \<Rightarrow> bool" where
  "slicesEqualAfterSort x y =
     (if length x \<noteq> length y then False
      else if length x = 1 then x ! 0 = y ! 0
      else
        let xCopy = sort x; yCopy = sort y
        in list_all (\<lambda>i. yCopy ! i = xCopy ! i) [0..<length xCopy])"

section \<open>The request reconciler (cachedcertificate controller)\<close>

text \<open>\<open>ctrl.Result\<close>, the delay in seconds.\<close>

record Result =
  Requeue :: bool
  RequeueAfter :: nat

definition Result_zero :: Result where
  "Result_zero = \<lparr>Requeue = False, RequeueAfter = 0\<rparr>"

type_synonym outcome = "(Result \<times> error option) \<times> world"

definition upsertTargetSecret :: "Secret \<Rightarrow> world \<Rightarrow> error option \<times> world" where
  "upsertTargetSecret secret w =
     (case Get_Secret (sec_Namespace secret, sec_Name secret) w of
        (Inl err, w1) \<Rightarrow>
          if IsNotFound err then Create_Secret secret w1
          else (Some err, w1)
      | (Inr existingSecret, w1) \<Rightarrow>
          if sec_Labels existingSecret SyncedLabelKey = None
          then (Some (ErrorsNew ''refusing to update a secret not created by the controller''), w1)
          else Update_Secret secret w1)"

definition getUpstreamCertificate :: "CachedCertificate \<Rightarrow> world \<Rightarrow> (error + Certificate) \<times> world" where
  "getUpstreamCertificate cachedCert w =
     (case UpstreamRef (Status cachedCert) of
        None \<Rightarrow> (Inl (ErrorsNew ''.Status.UpstreamRef is required''), w)
      | Some r \<Rightarrow> Get_Certificate (ref_Namespace r, ref_Name r) w)"

text \<open>
  \<open>createUpstreamCertificate\<close>: the document written has the name and namespace of the
  reference, the DNS names and the issuer reference of the request, and its own name as
  \<open>secretName\<close>; it has no owner reference.
\<close>

definition createUpstreamCertificate :: "CachedCertificate \<Rightarrow> world \<Rightarrow> error option \<times> world" where
  "createUpstreamCertificate cachedCert w =
     (case UpstreamRef (Status cachedCert) of
        None \<Rightarrow> (Some (ErrorsNew ''.Status.UpstreamRef is required''), w)
      | Some r \<Rightarrow>
          Create_Certificate
            \<lparr>crt_Name = ref_Name r,
             crt_Namespace = ref_Namespace r,
             crt_dnsNames = Present (DNSNames (Spec cachedCert)),
             crt_issuerRef = spec_IssuerRef (Spec cachedCert),
             crt_secretName = Present (ref_Name r)\<rparr> w)"

definition getUpstreamSecret :: "Certificate \<Rightarrow> world \<Rightarrow> (error + Secret) \<times> world" where
  "getUpstreamSecret upstreamCert w =
     (case crt_secretName upstreamCert of
        Malformed \<Rightarrow> (Inl AccessorError, w)
      | Absent \<Rightarrow> (Inl (ErrorsNew ''unable to find secretName in upstream Certificate''), w)
      | Present secretName \<Rightarrow>
          if secretName = [] then (Inl (ErrorsNew ''secretName not set in upstream Certificate''), w)
          else Get_Secret (crt_Namespace upstreamCert, secretName) w)"

text \<open>
  \<open>Reconcile\<close>, from the bottom of the function upwards. Last part: the secret is
  generated and validated, the target secret is upserted, and the state is written. When
  the upsert fails, the error variable is overwritten by the result of the status update,
  which is what the function then returns.
\<close>

definition Reconcile_sync :: "CachedCertificate \<Rightarrow> Certificate \<Rightarrow> Secret \<Rightarrow> world \<Rightarrow> outcome" where
  "Reconcile_sync cachedCert upstreamCert upstreamSecret w =
     (case genSecretForSync (Some cachedCert) (Some upstreamCert) (Some upstreamSecret) of
        Inl err \<Rightarrow> ((\<lparr>Requeue = False, RequeueAfter = 3\<rparr>, Some err), w)
      | Inr secret \<Rightarrow>
     (case validateSecret (Some secret) of
        Some err \<Rightarrow> ((\<lparr>Requeue = False, RequeueAfter = 3\<rparr>, Some err), w)
      | None \<Rightarrow>
     (case upsertTargetSecret secret w of
        (Some err, w1) \<Rightarrow>
          let cachedCert = cachedCert\<lparr>Status := (Status cachedCert)\<lparr>State := CachedCertificateStateError\<rparr>\<rparr>
          in (case Status_Update UpsertFailed cachedCert w1 of
                (Some err, w2) \<Rightarrow> ((Result_zero, Some err), w2)
              | (None, w2) \<Rightarrow> ((Result_zero, None), w2))
      | (None, w1) \<Rightarrow>
          let cachedCert = cachedCert\<lparr>Status := (Status cachedCert)\<lparr>State := CachedCertificateStateSynced\<rparr>\<rparr>
          in (case Status_Update FinalSynced cachedCert w1 of
                (Some err, w2) \<Rightarrow> ((Result_zero, Some err), w2)
              | (None, w2) \<Rightarrow> ((Result_zero, None), w2)))))"

text \<open>The upstream secret is fetched and the readiness flag is brought up to date.\<close>

definition Reconcile_secret :: "CachedCertificate \<Rightarrow> Certificate \<Rightarrow> world \<Rightarrow> outcome" where
  "Reconcile_secret cachedCert upstreamCert w =
     (case getUpstreamSecret upstreamCert w of
        (Inl err, w1) \<Rightarrow>
          if IsNotFound err then
            (if State (Status cachedCert) \<noteq> CachedCertificateStatePending \<or> UpstreamReady (Status cachedCert)
             then
               let cachedCert = cachedCert\<lparr>Status := (Status cachedCert)
                     \<lparr>State := CachedCertificateStatePending, UpstreamReady := False\<rparr>\<rparr>
               in (case Status_Update SecretNotFound cachedCert w1 of
                     (Some err, w2) \<Rightarrow> ((Result_zero, Some err), w2)
                   | (None, w2) \<Rightarrow> ((\<lparr>Requeue = True, RequeueAfter = 2\<rparr>, None), w2))
             else ((\<lparr>Requeue = True, RequeueAfter = 2\<rparr>, None), w1))
          else
            let cachedCert = cachedCert\<lparr>Status := (Status cachedCert)
                  \<lparr>State := CachedCertificateStateError, UpstreamReady := False\<rparr>\<rparr>
            in (case Status_Update SecretFetchError cachedCert w1 of
                  (Some statusErr, w2) \<Rightarrow> ((Result_zero, Some statusErr), w2)
                | (None, w2) \<Rightarrow> ((Result_zero, Some err), w2))
      | (Inr upstreamSecret, w1) \<Rightarrow>
          if \<not> UpstreamReady (Status cachedCert) then
            let cachedCert = cachedCert\<lparr>Status := (Status cachedCert)\<lparr>UpstreamReady := True\<rparr>\<rparr>
            in (case Status_Update UpstreamReadyFlag cachedCert w1 of
                  (Some err, w2) \<Rightarrow> ((Result_zero, Some err), w2)
                | (None, w2) \<Rightarrow> Reconcile_sync cachedCert upstreamCert upstreamSecret w2)
          else Reconcile_sync cachedCert upstreamCert upstreamSecret w1)"

text \<open>
  The DNS names of the fetched upstream certificate are compared with the request's.
  When the field is absent the error logged and returned is the nil error of the accessor.
\<close>

definition Reconcile_dnsNames :: "CachedCertificate \<Rightarrow> Certificate \<Rightarrow> world \<Rightarrow> outcome" where
  "Reconcile_dnsNames cachedCert upstreamCert w =
     (case crt_dnsNames upstreamCert of
        Malformed \<Rightarrow> ((Result_zero, Some AccessorError), w)
      | Absent \<Rightarrow> ((Result_zero, None), w)
      | Present upstreamDNSNames \<Rightarrow>
          if \<not> slicesEqualAfterSort upstreamDNSNames (DNSNames (Spec cachedCert)) then
            let cachedCert = cachedCert\<lparr>Status := (Status cachedCert)
                  \<lparr>State := CachedCertificateStatePending, UpstreamReady := False, UpstreamRef := None\<rparr>\<rparr>
            in (case Status_Update StaleBinding cachedCert w of
                  (Some err, w1) \<Rightarrow> ((\<lparr>Requeue = False, RequeueAfter = 2\<rparr>, Some err), w1)
                | (None, w1) \<Rightarrow> ((Result_zero, None), w1))
          else Reconcile_secret cachedCert upstreamCert w)"

text \<open>The upstream certificate is fetched, or created when it is not found.\<close>

definition Reconcile_upstream :: "CachedCertificate \<Rightarrow> world \<Rightarrow> outcome" where
  "Reconcile_upstream cachedCert w =
     (case getUpstreamCertificate cachedCert w of
        (Inl err, w1) \<Rightarrow>
          if IsNotFound err then
            (case createUpstreamCertificate cachedCert w1 of
               (Some err, w2) \<Rightarrow> ((Result_zero, Some err), w2)
             | (None, w2) \<Rightarrow>
                 (case Status_Update AfterUpstreamCreate cachedCert w2 of
                    (Some err, w3) \<Rightarrow> ((Result_zero, Some err), w3)
                  | (None, w3) \<Rightarrow> ((\<lparr>Requeue = True, RequeueAfter = 0\<rparr>, None), w3)))
          else ((Result_zero, Some err), w1)
      | (Inr upstreamCert, w1) \<Rightarrow> Reconcile_dnsNames cachedCert upstreamCert w1)"

text \<open>
  The two defaults applied to the fetched object in memory: the secret name, and the
  speculative upstream reference.
\<close>

definition with_defaults :: "string \<Rightarrow> CachedCertificate \<Rightarrow> CachedCertificate" where
  "with_defaults CacheNamespace cachedCert =
     (let cachedCert =
            (if SecretName (Spec cachedCert) = []
             then cachedCert\<lparr>Spec := (Spec cachedCert)\<lparr>SecretName := Name cachedCert\<rparr>\<rparr>
             else cachedCert);
          cachedCert =
            (if UpstreamRef (Status cachedCert) = None
             then cachedCert\<lparr>Status := (Status cachedCert)\<lparr>UpstreamRef :=
                    Some \<lparr>ref_Name = getUpstreamCertificateName (DNSNames (Spec cachedCert)),
                          ref_Namespace = CacheNamespace\<rparr>\<rparr>\<rparr>
             else cachedCert)
      in cachedCert)"

text \<open>\<open>CachedCertificateReconciler.Reconcile\<close> for the cache namespace of the reconciler.\<close>

definition Reconcile :: "string \<Rightarrow> NamespacedName \<Rightarrow> world \<Rightarrow> outcome" where
  "Reconcile CacheNamespace req w =
     (case Get_CachedCertificate req w of
        (Inl err, w1) \<Rightarrow>
          if IsNotFound err then ((Result_zero, None), w1)
          else ((Result_zero, Some err), w1)
      | (Inr cachedCert, w1) \<Rightarrow> Reconcile_upstream (with_defaults CacheNamespace cachedCert) w1)"

section \<open>The fan-out reconciler (upstream secrets)\<close>

text \<open>The loop over the listed dependents: each is patched to \<open>Pending\<close>.\<close>

fun patch_dependents :: "CachedCertificate list \<Rightarrow> world \<Rightarrow> outcome" where
  "patch_dependents [] w = ((Result_zero, None), w)"
| "patch_dependents (cert # items) w =
     (let original = cert;
          cert = cert\<lparr>Status := (Status cert)\<lparr>State := CachedCertificateStatePending\<rparr>\<rparr>
      in (case Status_Patch original cert w of
            (Some err, w1) \<Rightarrow> ((\<lparr>Requeue = False, RequeueAfter = 3\<rparr>, Some err), w1)
          | (None, w1) \<Rightarrow> patch_dependents items w1))"

text \<open>\<open>UpstreamSecretReconciler.Reconcile\<close>.\<close>

definition UpstreamSecretReconciler_Reconcile :: "NamespacedName \<Rightarrow> world \<Rightarrow> outcome" where
  "UpstreamSecretReconciler_Reconcile req w =
     (case Get_Secret req w of
        (Inl err, w1) \<Rightarrow>
          if IsNotFound err then ((Result_zero, None), w1)
          else ((Result_zero, Some err), w1)
      | (Inr secret, w1) \<Rightarrow>
          let certName = go_index (sec_Annotations secret) CertificateNameAnnotationKey
          in if certName = [] then ((Result_zero, None), w1)
             else
               (case List_CachedCertificates certName w1 of
                  (Inl err, w2) \<Rightarrow> ((\<lparr>Requeue = True, RequeueAfter = 0\<rparr>, Some err), w2)
                | (Inr items, w2) \<Rightarrow> patch_dependents items w2))"

text \<open>
  The predicate on watched secrets built in \<open>SetupWithManager\<close>: in the cache
  namespace, annotated by cert-manager, and not labelled \<open>true\<close> by this controller.
\<close>

definition namespaceAndLabelsPredicate :: "string \<Rightarrow> Secret \<Rightarrow> bool" where
  "namespaceAndLabelsPredicate CacheNamespace object =
     (sec_Namespace object = CacheNamespace \<and>
      go_index (sec_Annotations object) CertificateNameAnnotationKey \<noteq> [] \<and>
      go_index (sec_Labels object) SyncedLabelKey \<noteq> ''true'')"


section \<open>Notions used in the statements\<close>

text \<open>The calls issued between an earlier and a later state of the cluster.\<close>

definition pass_calls :: "world \<Rightarrow> world \<Rightarrow> api_call list" where
  "pass_calls w w' = drop (length (calls w)) (calls w')"

text \<open>Every stored secret without the marker label is stored unchanged afterwards.\<close>

definition keeps_foreign :: "Secret list \<Rightarrow> Secret list \<Rightarrow> bool" where
  "keeps_foreign xs ys =
     (\<forall>k x. lookup_obj sec_key k xs = Some x \<longrightarrow> sec_Labels x SyncedLabelKey = None \<longrightarrow>
        lookup_obj sec_key k ys = Some x)"

text \<open>
  A later record of calls extends an earlier one by calls that all satisfy a property.
\<close>

definition extends_by :: "(api_call \<Rightarrow> bool) \<Rightarrow> api_call list \<Rightarrow> api_call list \<Rightarrow> bool" where
  "extends_by P xs ys = (\<exists>new. ys = xs @ new \<and> list_all P new)"

text \<open>
  What the status updates of a pass have in common, relative to the status \<open>s0\<close> the
  request had when the pass fetched it: the write after the creation of the upstream
  certificate and the write of the readiness flag keep the state of \<open>s0\<close>, every other
  write sets one of the three named states; and the two guarded writes differ from \<open>s0\<close>
  in the state or in the readiness flag. The request reconciler issues no status patch.
\<close>

definition write_ok :: "CachedCertificateStatus \<Rightarrow> site \<Rightarrow> CachedCertificateStatus \<Rightarrow> bool" where
  "write_ok s0 at st =
     ((if at = AfterUpstreamCreate \<or> at = UpstreamReadyFlag then State st = State s0
       else State st = CachedCertificateStatePending \<or> State st = CachedCertificateStateSynced \<or>
            State st = CachedCertificateStateError) \<and>
      ((at = SecretNotFound \<or> at = UpstreamReadyFlag) \<longrightarrow>
         (State st \<noteq> State s0 \<or> UpstreamReady st \<noteq> UpstreamReady s0)))"

definition call_ok :: "CachedCertificateStatus \<Rightarrow> api_call \<Rightarrow> bool" where
  "call_ok s0 c =
     (case c of
        StatusUpdate at k st \<Rightarrow> write_ok s0 at st
      | StatusPatch k p \<Rightarrow> False
      | _ \<Rightarrow> True)"

text \<open>
  The calls of the fan-out reconciler: it issues no status update, and a status patch is
  empty or sets the state \<open>Pending\<close>.
\<close>

definition patch_ok :: "api_call \<Rightarrow> bool" where
  "patch_ok c =
     (case c of
        StatusUpdate at k st \<Rightarrow> False
      | StatusPatch k p \<Rightarrow> p = None \<or> p = Some CachedCertificateStatePending
      | _ \<Rightarrow> True)"

text \<open>The patch call the fan-out issues for a listed dependent.\<close>

definition patch_call :: "CachedCertificate \<Rightarrow> api_call" where
  "patch_call cert =
     StatusPatch (cc_key cert)
       (if State (Status cert) = CachedCertificateStatePending then None
        else Some CachedCertificateStatePending)"

text \<open>A request with its state set to \<open>Pending\<close>, as the fan-out loop sets it.\<close>

definition set_pending :: "CachedCertificate \<Rightarrow> CachedCertificate" where
  "set_pending c = c\<lparr>Status := (Status c)\<lparr>State := CachedCertificateStatePending\<rparr>\<rparr>"

section \<open>Example clusters\<close>

text \<open>
  One request \<open>testing/web\<close> for \<open>example.com\<close> with the cache namespace \<open>cache\<close>,
  its upstream certificate \<open>cc-example.com\<close> and the upstream secret of the same name.
  The DNS names and the status of the request, the labels of the target secret and the
  stored objects vary from one example to the next.
\<close>

definition demo_status :: "bool \<Rightarrow> CachedCertificateState \<Rightarrow> CachedCertificateStatus" where
  "demo_status ready st =
     \<lparr>UpstreamReady = ready,
      UpstreamRef = Some \<lparr>ref_Name = ''cc-example.com'', ref_Namespace = ''cache''\<rparr>,
      State = st\<rparr>"

definition demo_request :: "string list \<Rightarrow> CachedCertificateStatus \<Rightarrow> CachedCertificate" where
  "demo_request dns st =
     \<lparr>APIVersion = ''cache.weavelab.xyz/v1alpha1'', Kind = ''CachedCertificate'',
      Name = ''web'', Namespace = ''testing'', UID = ''uid-web'',
      Spec = \<lparr>SecretName = [],
              spec_IssuerRef = \<lparr>issuer_Name = ''my-issuer'', issuer_Kind = ''Issuer'', issuer_Group = []\<rparr>,
              DNSNames = dns\<rparr>,
      Status = st\<rparr>"

definition demo_certificate :: Certificate where
  "demo_certificate =
     \<lparr>crt_Name = ''cc-example.com'', crt_Namespace = ''cache'',
      crt_dnsNames = Present [''example.com''],
      crt_issuerRef = \<lparr>issuer_Name = ''my-issuer'', issuer_Kind = ''Issuer'', issuer_Group = []\<rparr>,
      crt_secretName = Present ''cc-example.com''\<rparr>"

definition demo_upstream_secret :: Secret where
  "demo_upstream_secret =
     \<lparr>sec_Name = ''cc-example.com'', sec_Namespace = ''cache'',
      sec_Labels = Map.empty,
      sec_Annotations = [CertificateNameAnnotationKey \<mapsto> ''cc-example.com''],
      sec_OwnerReferences = [], sec_Type = ''kubernetes.io/tls'',
      sec_Data = [''tls.crt'' \<mapsto> ''CERT'', ''tls.key'' \<mapsto> ''KEY'']\<rparr>"

definition demo_target :: "(string \<rightharpoonup> string) \<Rightarrow> Secret" where
  "demo_target labels =
     \<lparr>sec_Name = ''web'', sec_Namespace = ''testing'',
      sec_Labels = labels, sec_Annotations = Map.empty,
      sec_OwnerReferences = [], sec_Type = ''Opaque'',
      sec_Data = [''password'' \<mapsto> ''hunter2'']\<rparr>"

definition demo_world :: "CachedCertificate list \<Rightarrow> Certificate list \<Rightarrow> Secret list \<Rightarrow> world" where
  "demo_world ccs crts secs =
     \<lparr>cachedCerts = ccs, certificates = crts, secrets = secs, faults = [], calls = []\<rparr>"


text \<open>The upstream secret with a marker label of the given value.\<close>

definition demo_labelled :: "string \<Rightarrow> Secret" where
  "demo_labelled v = demo_upstream_secret\<lparr>sec_Labels := [SyncedLabelKey \<mapsto> v]\<rparr>"

section \<open>Properties of the hash and of the decimal rendering\<close>

lemma fnv_prime64_inverse: "fnv_prime64 * 14886173955864302971 = 1"
  by (simp add: fnv_prime64_def)

lemma xor_cancel64: "h XOR a = h XOR b \<Longrightarrow> a = b" for h a b :: "64 word"
proof -
  assume "h XOR a = h XOR b"
  then have "h XOR (h XOR a) = h XOR (h XOR b)" by simp
  then show "a = b" by (simp add: xor.assoc [symmetric])
qed

lemma fnv64a_step_inj:
  assumes "fnv64a_step b h = fnv64a_step b' h"
  shows "(of_char b :: 64 word) = of_char b'"
proof -
  have cancel: "x = y" if "x * fnv_prime64 = y * fnv_prime64" for x y :: "64 word"
  proof -
    have "x * (fnv_prime64 * 14886173955864302971) = y * (fnv_prime64 * 14886173955864302971)"
      using that by (simp only: mult.assoc [symmetric])
    then show ?thesis by (simp only: fnv_prime64_inverse mult_1_right)
  qed
  have "h XOR (of_char b :: 64 word) = h XOR of_char b'"
    using assms unfolding fnv64a_step_def by (rule cancel)
  then show ?thesis by (rule xor_cancel64)
qed

lemma fnv64a_snoc: "fnv64a (s @ [b]) = fnv64a_step b (fnv64a s)"
  by (simp add: fnv64a_def)

lemma digit_val_digit_char: "d < 10 \<Longrightarrow> digit_val (digit_char d) = d"
proof -
  assume "d < 10"
  then have "d \<in> {0, 1, 2, 3, 4, 5, 6, 7, 8, 9}" by auto
  then show ?thesis
    by (auto simp: digit_val_def digit_char_def)
qed

lemma parse_FormatUint10: "parse_decimal (FormatUint10 n) = n"
proof (induction n rule: FormatUint10.induct)
  case (1 n)
  show ?case
  proof (cases "n < 10")
    case True
    then show ?thesis
      by (subst FormatUint10.simps) (simp add: parse_decimal_def digit_val_digit_char)
  next
    case False
    with 1 have ih: "parse_decimal (FormatUint10 (n div 10)) = n div 10" by simp
    have "parse_decimal (FormatUint10 n) =
        10 * parse_decimal (FormatUint10 (n div 10)) + digit_val (digit_char (n mod 10))"
      using False by (subst FormatUint10.simps) (simp add: parse_decimal_def)
    also have "\<dots> = n" by (simp add: ih digit_val_digit_char)
    finally show ?thesis .
  qed
qed

lemma genHash_inj: "genHash s = genHash t \<Longrightarrow> fnv64a s = fnv64a t"
proof -
  assume "genHash s = genHash t"
  then have "parse_decimal (genHash s) = parse_decimal (genHash t)" by simp
  then have "unat (fnv64a s) = unat (fnv64a t)"
    by (simp only: genHash_def parse_FormatUint10)
  then show ?thesis by (simp add: word_unat_eq_iff)
qed

lemma digit_char_in: "d < 10 \<Longrightarrow> digit_char d \<in> set ''0123456789''"
  unfolding digit_char_def by (rule nth_mem) simp

lemma FormatUint10_digits: "set (FormatUint10 n) \<subseteq> set ''0123456789''"
proof (induction n rule: FormatUint10.induct)
  case (1 n)
  show ?case
  proof (cases "n < 10")
    case True
    then show ?thesis
      using digit_char_in [of n] by (subst FormatUint10.simps) simp
  next
    case False
    then have "set (FormatUint10 (n div 10)) \<subseteq> set ''0123456789''" using 1 by simp
    moreover have "digit_char (n mod 10) \<in> set ''0123456789''"
      by (rule digit_char_in) simp
    ultimately show ?thesis
      using False by (subst FormatUint10.simps) simp
  qed
qed

lemma FormatUint10_length: "n < 10 ^ k \<Longrightarrow> 0 < k \<Longrightarrow> length (FormatUint10 n) \<le> k"
proof (induction n arbitrary: k rule: FormatUint10.induct)
  case (1 n)
  show ?case
  proof (cases "n < 10")
    case True
    then show ?thesis using 1(3) by (subst FormatUint10.simps) simp
  next
    case False
    obtain j where k: "k = Suc j" using 1(3) by (cases k) auto
    have "j \<noteq> 0" using False 1(2) k by (cases j) auto
    moreover have "n div 10 < 10 ^ j" using 1(2) k by (simp add: less_mult_imp_div_less)
    ultimately have "length (FormatUint10 (n div 10)) \<le> j"
      using 1(1) [of j] False by simp
    then show ?thesis using False k by (subst FormatUint10.simps) simp
  qed
qed

lemma genHash_length: "length (genHash s) \<le> 20"
proof -
  have "unat (fnv64a s) < 2 ^ 64" using unsigned_less [of "fnv64a s"] by simp
  also have "(2::nat) ^ 64 < 10 ^ 20" by simp
  finally show ?thesis unfolding genHash_def by (intro FormatUint10_length) simp_all
qed

lemma genHash_no_backslash: "strings_ReplaceAll (genHash s) (CHR 0x5C) (CHR ''x'') = genHash s"
proof -
  have "CHR 0x5C \<notin> set (genHash s)"
    using FormatUint10_digits [of "unat (fnv64a s)"] by (auto simp: genHash_def)
  then show ?thesis
    unfolding strings_ReplaceAll_def by (intro map_idI) auto
qed

text \<open>The two values the repository's unit test expects of \<open>genHash\<close>.\<close>

lemma genHash_tests:
  "genHash ''hash'' = ''3331993900282443793''"
  "genHash ''hash2'' = ''12478621798616408953''"
  by (simp_all add: genHash_def fnv64a_def fnv64a_step_def fnv_offset64_def fnv_prime64_def
      FormatUint10.simps digit_char_def)

section \<open>Properties of the name deriver\<close>

lemma names_sorted_copy: "names (sort_names (copy_names (make_names xs))) = sort xs"
  by (simp add: sort_names_def copy_names_def make_names_def)

lemma dnsNames_untouched: "dnsNames (sort_names (copy_names (make_names xs))) = xs"
  by (simp add: sort_names_def copy_names_def make_names_def)

lemma getUpstreamCertificateName_call_eq:
  "getUpstreamCertificateName_call xs =
     (if xs = [] then ([], xs) else (name_of_sorted (sort xs), xs))"
  by (simp add: getUpstreamCertificateName_call_def Let_def names_sorted_copy dnsNames_untouched)

lemma getUpstreamCertificateName_eq:
  "getUpstreamCertificateName xs = (if xs = [] then [] else name_of_sorted (sort xs))"
  by (simp add: getUpstreamCertificateName_def getUpstreamCertificateName_call_eq)

lemma sort_mset_eq: "mset xs = mset ys \<Longrightarrow> sort xs = sort (ys :: 'a :: linorder list)"
  by (rule properties_for_sort) simp_all

lemma strings_ReplaceAll_length [simp]: "length (strings_ReplaceAll s a b) = length s"
  by (simp add: strings_ReplaceAll_def)

lemma strings_ReplaceAll_take: "strings_ReplaceAll (take n s) a b = take n (strings_ReplaceAll s a b)"
  by (simp add: strings_ReplaceAll_def take_map)

lemma strings_ReplaceAll_append:
  "strings_ReplaceAll (s @ t) a b = strings_ReplaceAll s a b @ strings_ReplaceAll t a b"
  by (simp add: strings_ReplaceAll_def)

lemma name_of_sorted_amended:
  "name_of_sorted ns =
     (let starred = strings_ReplaceAll (strings_Join ns ''-'') (CHR ''*'') (CHR ''x'');
          replaced = strings_ReplaceAll starred (CHR 0x5C) (CHR ''x'')
      in ''cc-'' @ (if length replaced > 253 then take 125 replaced @ genHash starred
                    else replaced))"
  by (simp add: name_of_sorted_def Let_def maxSecretNameLength_def hashPrefixLength_def
      strings_ReplaceAll_append strings_ReplaceAll_take genHash_no_backslash)

text \<open>
  C1: the derived name depends only on the multiset of the DNS names (any permutation
  of the input gives the same name), and when the call returns the caller's slice holds
  its elements in their original order.
\<close>

theorem getUpstreamCertificateName_order_independent:
  "mset xs = mset ys \<Longrightarrow>
     getUpstreamCertificateName xs = getUpstreamCertificateName ys \<and>
     snd (getUpstreamCertificateName_call xs) = xs"
proof -
  assume eq: "mset xs = mset ys"
  then have "sort xs = sort ys" by (rule sort_mset_eq)
  moreover have "xs = [] \<longleftrightarrow> ys = []"
    using eq by (metis mset_zero_iff)
  ultimately show ?thesis
    by (simp add: getUpstreamCertificateName_eq getUpstreamCertificateName_call_eq)
qed

theorem getUpstreamCertificateName_order_independent_witness:
  "mset [''b'', ''a'', ''c''] = mset [''c'', ''b'', ''a''] \<and>
   getUpstreamCertificateName [''b'', ''a'', ''c''] = getUpstreamCertificateName [''c'', ''b'', ''a''] \<and>
   snd (getUpstreamCertificateName_call [''b'', ''a'', ''c'']) = [''b'', ''a'', ''c'']"
proof -
  have h: "mset [''b'', ''a'', ''c''] = mset [''c'', ''b'', ''a'']" by simp
  show ?thesis
    using h getUpstreamCertificateName_order_independent [OF h] by blast
qed

lemma long_name_facts:
  fixes n :: string
  defines "n \<equiv> replicate 253 (CHR ''a'') @ [CHR 0x5C]"
  shows "strings_ReplaceAll n (CHR ''*'') (CHR ''x'') = n"
    and "strings_ReplaceAll n (CHR 0x5C) (CHR ''x'') = replicate 253 (CHR ''a'') @ ''x''"
    and "length n = 254"
  by (simp_all add: n_def strings_ReplaceAll_def)

text \<open>
  C2, as stated, fails: for one DNS name of 253 letters followed by a backslash the joined
  string is longer than 253, and the code hashes it with the backslash still in place
  (the backslash is replaced after the hash is appended), while the reference of the
  specification hashes the string with the backslash already replaced. FNV-1a is injective in
  its last byte, so the two decimal suffixes differ.
\<close>

theorem spec_derived_name_counterexample:
  "getUpstreamCertificateName [replicate 253 (CHR ''a'') @ [CHR 0x5C]] \<noteq>
   spec_derived_name [replicate 253 (CHR ''a'') @ [CHR 0x5C]]"
proof
  let ?n = "replicate 253 (CHR ''a'') @ [CHR 0x5C]"
  let ?r = "replicate 253 (CHR ''a'') @ ''x''"
  assume eq: "getUpstreamCertificateName [?n] = spec_derived_name [?n]"
  have code: "getUpstreamCertificateName [?n] = ''cc-'' @ take 125 ?r @ genHash ?n"
    by (simp add: getUpstreamCertificateName_eq name_of_sorted_amended Let_def long_name_facts)
  have spec: "spec_derived_name [?n] = ''cc-'' @ take 125 ?r @ genHash ?r"
    by (simp add: spec_derived_name_def Let_def long_name_facts genHash_def)
  from eq have "genHash ?n = genHash ?r"
    unfolding code spec by simp
  then have "fnv64a ?n = fnv64a ?r" by (rule genHash_inj)
  then have "fnv64a_step (CHR 0x5C) (fnv64a (replicate 253 (CHR ''a''))) =
             fnv64a_step (CHR ''x'') (fnv64a (replicate 253 (CHR ''a'')))"
    by (simp only: fnv64a_snoc)
  then have "(of_char (CHR 0x5C) :: 64 word) = of_char (CHR ''x'')"
    by (rule fnv64a_step_inj)
  then show False by simp
qed

lemma name_of_sorted_spec_amended:
  "name_of_sorted (sort xs) = spec_derived_name_amended xs"
  by (simp add: name_of_sorted_amended spec_derived_name_amended_def Let_def genHash_def)

text \<open>
  C2, amended: for every non-empty DNS-name sequence the code returns the reference result
  in which the 64-bit FNV-1a hash is taken of the joined string after the wildcard
  replacement and before the backslash replacement (everything else as the specification
  words it: sorted copy, join with \<open>-\<close>, both replacements, cut to 125 characters plus
  the decimal hash beyond 253 characters, prefix \<open>cc-\<close>); and the two documented examples
  hold.
\<close>

theorem getUpstreamCertificateName_refines_amended:
  "(\<forall>xs. xs \<noteq> [] \<longrightarrow> getUpstreamCertificateName xs = spec_derived_name_amended xs) \<and>
   getUpstreamCertificateName [''test.example.com''] = ''cc-test.example.com'' \<and>
   getUpstreamCertificateName [''test.example.com'', ''secondary.example.com''] =
     ''cc-secondary.example.com-test.example.com''"
proof (intro conjI allI impI)
  fix xs :: "string list"
  assume "xs \<noteq> []"
  then show "getUpstreamCertificateName xs = spec_derived_name_amended xs"
    by (simp add: getUpstreamCertificateName_eq name_of_sorted_spec_amended)
next
  show "getUpstreamCertificateName [''test.example.com''] = ''cc-test.example.com''"
    by (simp add: getUpstreamCertificateName_eq name_of_sorted_amended Let_def
        strings_ReplaceAll_def)
next
  show "getUpstreamCertificateName [''test.example.com'', ''secondary.example.com''] =
     ''cc-secondary.example.com-test.example.com''"
    by (simp add: getUpstreamCertificateName_eq name_of_sorted_amended Let_def
        strings_ReplaceAll_def)
qed

theorem getUpstreamCertificateName_refines_amended_witness:
  "[''*.example.com'', ''a.example.com''] \<noteq> [] \<and>
   getUpstreamCertificateName [''*.example.com'', ''a.example.com''] =
     spec_derived_name_amended [''*.example.com'', ''a.example.com''] \<and>
   spec_derived_name_amended [''*.example.com'', ''a.example.com''] =
     ''cc-x.example.com-a.example.com''"
proof -
  have "spec_derived_name_amended [''*.example.com'', ''a.example.com''] =
     ''cc-x.example.com-a.example.com''"
    by (simp add: spec_derived_name_amended_def Let_def strings_ReplaceAll_def)
  then show ?thesis
    using getUpstreamCertificateName_refines_amended by simp
qed

text \<open>
  The empty sequence is answered by the guard at the head of the function.
\<close>

lemma derived_name_empty: "getUpstreamCertificateName [] = []"
  by (simp add: getUpstreamCertificateName_eq)

text \<open>
  For a non-empty sequence the name begins with \<open>cc-\<close>, and it stays within 253
  characters when the joined string has at most 250 characters or more than 253 (the
  hashed case).
\<close>

lemma derived_name_prefix_and_bound:
  "xs \<noteq> [] \<Longrightarrow>
     prefix ''cc-'' (getUpstreamCertificateName xs) \<and>
     (length (strings_Join (sort xs) ''-'') \<le> 250 \<or> 253 < length (strings_Join (sort xs) ''-'')
        \<longrightarrow> length (getUpstreamCertificateName xs) \<le> 253)"
proof -
  assume ne: "xs \<noteq> []"
  let ?j = "strings_Join (sort xs) ''-''"
  have pre: "prefix ''cc-'' (getUpstreamCertificateName xs)"
    using ne by (simp add: getUpstreamCertificateName_eq name_of_sorted_amended Let_def)
  have short: "length (getUpstreamCertificateName xs) \<le> 253" if "length ?j \<le> 250"
    using ne that by (simp add: getUpstreamCertificateName_eq name_of_sorted_amended Let_def)
  have long: "length (getUpstreamCertificateName xs) \<le> 253" if "253 < length ?j"
    using ne that genHash_length [of "strings_ReplaceAll ?j (CHR ''*'') (CHR ''x'')"]
    by (simp add: getUpstreamCertificateName_eq name_of_sorted_amended Let_def)
  show ?thesis using pre short long by blast
qed

text \<open>
  The length test compares the joined string alone with \<open>maxSecretNameLength\<close>, before
  the three characters of the prefix are added: an unhashed name is three characters
  longer than the joined string.
\<close>

lemma derived_name_length_in_gap:
  assumes "xs \<noteq> []" and "length (strings_Join (sort xs) ''-'') \<le> 253"
  shows "length (getUpstreamCertificateName xs) = length (strings_Join (sort xs) ''-'') + 3"
  using assms by (simp add: getUpstreamCertificateName_eq name_of_sorted_amended Let_def)

text \<open>
  C6: the code does not keep the bound. The comments of the source set the limit at 253
  characters and reserve three of them for the prefix \<open>cc-\<close>, but a joined string of 251
  to 253 characters is neither hashed nor shortened. For one DNS name of 253 letters the
  name returned is the prefix followed by the whole name, 256 characters.
\<close>

theorem derived_name_exceeds_limit:
  "getUpstreamCertificateName [replicate 253 (CHR ''a'')] = ''cc-'' @ replicate 253 (CHR ''a'') \<and>
   length (getUpstreamCertificateName [replicate 253 (CHR ''a'')]) = 256"
  by (simp add: getUpstreamCertificateName_eq name_of_sorted_amended Let_def strings_ReplaceAll_def)

section \<open>The secret materializer\<close>

text \<open>
  C9: \<open>genSecretForSync\<close> returns an error (and no secret) exactly when one of its
  three arguments is nil. With three non-nil arguments it returns a secret named by the
  request's \<open>secretName\<close>, in the request's namespace, with the marker label set to
  \<open>true\<close>, the source annotation set to the request's \<open>namespace/name\<close>, one owner
  reference that points at the request, and the type and data of the upstream secret.
\<close>

theorem genSecretForSync_result:
  "isl (genSecretForSync cachedCert upstreamCert upstreamSecret) =
     (cachedCert = None \<or> upstreamCert = None \<or> upstreamSecret = None) \<and>
   (\<exists>s. genSecretForSync (Some cc) (Some uc) (Some us) = Inr s \<and>
        sec_Name s = SecretName (Spec cc) \<and>
        sec_Namespace s = Namespace cc \<and>
        sec_Labels s SyncedLabelKey = Some ''true'' \<and>
        sec_Annotations s SourceAnnotationKey = Some (Namespace cc @ ''/'' @ Name cc) \<and>
        sec_OwnerReferences s =
          [\<lparr>owner_APIVersion = APIVersion cc, owner_Kind = Kind cc, owner_Name = Name cc,
            owner_UID = UID cc, owner_Controller = Some True,
            owner_BlockOwnerDeletion = Some True\<rparr>] \<and>
        sec_Type s = sec_Type us \<and>
        sec_Data s = sec_Data us)"
  by (simp add: genSecretForSync_def NewControllerRef_def Let_def split: option.splits)

section \<open>The store: lookups, frames and failures\<close>

lemma lookup_obj_Nil [simp]: "lookup_obj key k [] = None"
  by (simp add: lookup_obj_def)

lemma lookup_obj_Cons [simp]:
  "lookup_obj key k (x # xs) = (if key x = k then Some x else lookup_obj key k xs)"
  by (simp add: lookup_obj_def)

lemma lookup_obj_key: "lookup_obj key k xs = Some x \<Longrightarrow> key x = k"
  by (induction xs) (auto split: if_splits)

lemma lookup_obj_mem: "lookup_obj key k xs = Some x \<Longrightarrow> x \<in> set xs"
  by (induction xs) (auto split: if_splits)

lemma lookup_obj_append:
  "lookup_obj key k (xs @ [x]) =
     (case lookup_obj key k xs of Some y \<Rightarrow> Some y | None \<Rightarrow> if key x = k then Some x else None)"
  by (induction xs) auto

lemma lookup_obj_replace:
  assumes "\<And>x. key x = k' \<Longrightarrow> key (f x) = k'"
  shows "lookup_obj key k (replace_obj key k' f xs) =
     (if k = k' then map_option f (lookup_obj key k xs) else lookup_obj key k xs)"
  using assms by (induction xs) (auto simp: replace_obj_def)

lemma issue_frame:
  "issue c w = (f, w') \<Longrightarrow>
     calls w' = calls w @ [c] \<and> secrets w' = secrets w \<and> cachedCerts w' = cachedCerts w \<and>
     certificates w' = certificates w"
  by (auto simp: issue_def split: list.splits)

lemma issue_no_faults:
  "faults w = [] \<Longrightarrow> issue c w = (None, w\<lparr>calls := calls w @ [c]\<rparr>)"
  by (simp add: issue_def)

lemma Get_Secret_frame:
  "Get_Secret k w = (r, w') \<Longrightarrow>
     calls w' = calls w @ [GetSecret k] \<and> secrets w' = secrets w \<and>
     cachedCerts w' = cachedCerts w \<and> certificates w' = certificates w"
  by (auto simp: Get_Secret_def split: prod.splits option.splits dest: issue_frame)

lemma Get_Secret_found:
  "Get_Secret k w = (Inr s, w') \<Longrightarrow> lookup_obj sec_key k (secrets w) = Some s"
  by (auto simp: Get_Secret_def split: prod.splits option.splits dest: issue_frame)

lemma Get_Secret_NotFound:
  "Get_Secret k w = (Inl e, w') \<Longrightarrow> IsNotFound e \<Longrightarrow> lookup_obj sec_key k (secrets w) = None"
  by (auto simp: Get_Secret_def IsNotFound_def split: prod.splits option.splits dest: issue_frame)

lemma Create_Secret_lookup:
  "Create_Secret s w = (r, w') \<Longrightarrow> lookup_obj sec_key k (secrets w) = Some x \<Longrightarrow>
     lookup_obj sec_key k (secrets w') = Some x"
  by (auto simp: Create_Secret_def lookup_obj_append split: prod.splits option.splits dest: issue_frame)

lemma Update_Secret_lookup:
  "Update_Secret s w = (r, w') \<Longrightarrow> k \<noteq> sec_key s \<Longrightarrow>
     lookup_obj sec_key k (secrets w') = lookup_obj sec_key k (secrets w)"
  by (auto simp: Update_Secret_def lookup_obj_replace split: prod.splits option.splits dest: issue_frame)

lemma upsertTargetSecret_keeps_foreign:
  assumes "upsertTargetSecret secret w = (r, w')"
    and "lookup_obj sec_key k (secrets w) = Some x"
    and "sec_Labels x SyncedLabelKey = None"
  shows "lookup_obj sec_key k (secrets w') = Some x"
proof (cases "Get_Secret (sec_Namespace secret, sec_Name secret) w")
  case (Pair g w1)
  have w1: "secrets w1 = secrets w" using Pair by (auto dest: Get_Secret_frame)
  show ?thesis
  proof (cases g)
    case (Inl err)
    then show ?thesis
      using assms Pair w1
      by (auto simp: upsertTargetSecret_def split: if_splits dest: Create_Secret_lookup)
  next
    case (Inr existing)
    then have ex: "lookup_obj sec_key (sec_key secret) (secrets w) = Some existing"
      using Pair by (auto simp: sec_key_def dest: Get_Secret_found)
    show ?thesis
    proof (cases "sec_Labels existing SyncedLabelKey = None")
      case True
      then show ?thesis using assms Pair Inr w1 by (auto simp: upsertTargetSecret_def)
    next
      case False
      then have "k \<noteq> sec_key secret" using ex assms by auto
      moreover have "Update_Secret secret w1 = (r, w')"
        using assms(1) Pair Inr False by (simp add: upsertTargetSecret_def)
      ultimately show ?thesis using assms(2) w1 by (auto dest: Update_Secret_lookup)
    qed
  qed
qed

lemma upsertTargetSecret_conflict:
  assumes "faults w = []"
    and "lookup_obj sec_key (sec_key secret) (secrets w) = Some existing"
    and "sec_Labels existing SyncedLabelKey = None"
  shows "upsertTargetSecret secret w =
     (Some (ErrorsNew ''refusing to update a secret not created by the controller''),
      w\<lparr>calls := calls w @ [GetSecret (sec_key secret)]\<rparr>)"
  using assms
  by (simp add: upsertTargetSecret_def Get_Secret_def issue_no_faults sec_key_def)

lemma upsertTargetSecret_owned:
  assumes "faults w = []"
    and "lookup_obj sec_key (sec_key secret) (secrets w) = Some existing"
    and "sec_Labels existing SyncedLabelKey = Some v"
  shows "upsertTargetSecret secret w =
     (None, w\<lparr>calls := calls w @ [GetSecret (sec_key secret), UpdateSecret secret],
              secrets := replace_obj sec_key (sec_key secret) (\<lambda>_. secret) (secrets w)\<rparr>)"
  using assms
  by (simp add: upsertTargetSecret_def Get_Secret_def Update_Secret_def issue_no_faults sec_key_def)

lemma Get_CachedCertificate_frame:
  "Get_CachedCertificate k w = (r, w') \<Longrightarrow>
     calls w' = calls w @ [GetCachedCertificate k] \<and> secrets w' = secrets w \<and>
     cachedCerts w' = cachedCerts w \<and> certificates w' = certificates w"
  by (auto simp: Get_CachedCertificate_def split: prod.splits option.splits dest: issue_frame)

lemma Get_CachedCertificate_found:
  "Get_CachedCertificate k w = (Inr c, w') \<Longrightarrow> lookup_obj cc_key k (cachedCerts w) = Some c"
  by (auto simp: Get_CachedCertificate_def split: prod.splits option.splits dest: issue_frame)

lemma Get_Certificate_frame:
  "Get_Certificate k w = (r, w') \<Longrightarrow>
     calls w' = calls w @ [GetCertificate k] \<and> secrets w' = secrets w \<and>
     cachedCerts w' = cachedCerts w \<and> certificates w' = certificates w"
  by (auto simp: Get_Certificate_def split: prod.splits option.splits dest: issue_frame)

lemma Get_Certificate_found:
  "Get_Certificate k w = (Inr c, w') \<Longrightarrow> lookup_obj crt_key k (certificates w) = Some c"
  by (auto simp: Get_Certificate_def split: prod.splits option.splits dest: issue_frame)

lemma Create_Certificate_frame:
  "Create_Certificate c w = (r, w') \<Longrightarrow>
     calls w' = calls w @ [CreateCertificate c] \<and> secrets w' = secrets w \<and>
     cachedCerts w' = cachedCerts w"
  by (auto simp: Create_Certificate_def split: prod.splits option.splits dest: issue_frame)

lemma Status_Update_frame:
  "Status_Update at c w = (r, w') \<Longrightarrow>
     calls w' = calls w @ [StatusUpdate at (cc_key c) (Status c)] \<and> secrets w' = secrets w \<and>
     certificates w' = certificates w"
  by (auto simp: Status_Update_def split: prod.splits option.splits dest: issue_frame)

lemma Status_Patch_frame:
  "Status_Patch original modified w = (r, w') \<Longrightarrow>
     calls w' = calls w @ [StatusPatch (cc_key modified) (merge_diff original modified)] \<and>
     secrets w' = secrets w \<and> certificates w' = certificates w"
  by (auto simp: Status_Patch_def split: prod.splits option.splits dest: issue_frame)

lemma Create_Secret_frame:
  "Create_Secret s w = (r, w') \<Longrightarrow>
     calls w' = calls w @ [CreateSecret s] \<and> cachedCerts w' = cachedCerts w \<and>
     certificates w' = certificates w"
  by (auto simp: Create_Secret_def split: prod.splits option.splits dest: issue_frame)

lemma Update_Secret_frame:
  "Update_Secret s w = (r, w') \<Longrightarrow>
     calls w' = calls w @ [UpdateSecret s] \<and> cachedCerts w' = cachedCerts w \<and>
     certificates w' = certificates w"
  by (auto simp: Update_Secret_def split: prod.splits option.splits dest: issue_frame)

lemma getUpstreamSecret_frame:
  "getUpstreamSecret uc w = (r, w') \<Longrightarrow>
     secrets w' = secrets w \<and> cachedCerts w' = cachedCerts w \<and> certificates w' = certificates w"
  by (auto simp: getUpstreamSecret_def split: field.splits if_splits dest: Get_Secret_frame)

lemma getUpstreamCertificate_frame:
  "getUpstreamCertificate c w = (r, w') \<Longrightarrow>
     secrets w' = secrets w \<and> cachedCerts w' = cachedCerts w \<and> certificates w' = certificates w"
  by (auto simp: getUpstreamCertificate_def split: option.splits dest: Get_Certificate_frame)

lemma createUpstreamCertificate_frame:
  "createUpstreamCertificate c w = (r, w') \<Longrightarrow> secrets w' = secrets w \<and> cachedCerts w' = cachedCerts w"
  by (auto simp: createUpstreamCertificate_def split: option.splits dest: Create_Certificate_frame)

lemma keeps_foreign_refl [simp]: "keeps_foreign xs xs"
  by (simp add: keeps_foreign_def)

lemma keeps_foreign_trans: "keeps_foreign xs ys \<Longrightarrow> keeps_foreign ys zs \<Longrightarrow> keeps_foreign xs zs"
  by (simp add: keeps_foreign_def)

lemma upsertTargetSecret_keeps:
  "upsertTargetSecret secret w = (r, w') \<Longrightarrow> keeps_foreign (secrets w) (secrets w')"
  unfolding keeps_foreign_def by (blast intro: upsertTargetSecret_keeps_foreign)

lemma upsertTargetSecret_frame:
  "upsertTargetSecret secret w = (r, w') \<Longrightarrow>
     cachedCerts w' = cachedCerts w \<and> certificates w' = certificates w"
  by (auto simp: upsertTargetSecret_def split: prod.splits sum.splits if_splits
      dest!: Get_Secret_frame Create_Secret_frame Update_Secret_frame)

lemma Reconcile_sync_keeps:
  "Reconcile_sync c uc us w = (r, w') \<Longrightarrow> keeps_foreign (secrets w) (secrets w')"
  unfolding Reconcile_sync_def Let_def
  by (auto split: sum.splits option.splits prod.splits
      dest!: upsertTargetSecret_keeps Status_Update_frame)

lemma Reconcile_secret_keeps:
  "Reconcile_secret c uc w = (r, w') \<Longrightarrow> keeps_foreign (secrets w) (secrets w')"
  unfolding Reconcile_secret_def Let_def
  by (auto split: sum.splits option.splits prod.splits if_splits
      dest!: Reconcile_sync_keeps Status_Update_frame getUpstreamSecret_frame)

lemma Reconcile_dnsNames_keeps:
  "Reconcile_dnsNames c uc w = (r, w') \<Longrightarrow> keeps_foreign (secrets w) (secrets w')"
  unfolding Reconcile_dnsNames_def Let_def
  by (auto split: field.splits option.splits prod.splits if_splits
      dest!: Reconcile_secret_keeps Status_Update_frame)

lemma Reconcile_upstream_keeps:
  "Reconcile_upstream c w = (r, w') \<Longrightarrow> keeps_foreign (secrets w) (secrets w')"
  unfolding Reconcile_upstream_def
  by (auto split: sum.splits option.splits prod.splits if_splits
      dest!: Reconcile_dnsNames_keeps Status_Update_frame getUpstreamCertificate_frame
        createUpstreamCertificate_frame)

lemma Reconcile_keeps:
  "Reconcile ns req w = (r, w') \<Longrightarrow> keeps_foreign (secrets w) (secrets w')"
  unfolding Reconcile_def
  by (auto split: sum.splits prod.splits if_splits
      dest!: Reconcile_upstream_keeps Get_CachedCertificate_frame)

section \<open>A pass without backend failures\<close>

lemma with_defaults_meta [simp]:
  "Name (with_defaults ns c) = Name c"
  "Namespace (with_defaults ns c) = Namespace c"
  "UID (with_defaults ns c) = UID c"
  "APIVersion (with_defaults ns c) = APIVersion c"
  "Kind (with_defaults ns c) = Kind c"
  "cc_key (with_defaults ns c) = cc_key c"
  "DNSNames (Spec (with_defaults ns c)) = DNSNames (Spec c)"
  "State (Status (with_defaults ns c)) = State (Status c)"
  "UpstreamReady (Status (with_defaults ns c)) = UpstreamReady (Status c)"
  by (simp_all add: with_defaults_def cc_key_def Let_def)

lemma with_defaults_UpstreamRef:
  "UpstreamRef (Status (with_defaults ns c)) =
     (case UpstreamRef (Status c) of
        None \<Rightarrow> Some \<lparr>ref_Name = getUpstreamCertificateName (DNSNames (Spec c)), ref_Namespace = ns\<rparr>
      | Some r \<Rightarrow> Some r)"
  by (simp add: with_defaults_def Let_def split: option.splits)

lemma with_defaults_SecretName:
  "SecretName (Spec (with_defaults ns c)) =
     (if SecretName (Spec c) = [] then Name c else SecretName (Spec c))"
  by (simp add: with_defaults_def Let_def)

lemma Get_CachedCertificate_ok:
  "faults w = [] \<Longrightarrow> lookup_obj cc_key k (cachedCerts w) = Some c \<Longrightarrow>
     Get_CachedCertificate k w = (Inr c, w\<lparr>calls := calls w @ [GetCachedCertificate k]\<rparr>)"
  by (simp add: Get_CachedCertificate_def issue_no_faults)

lemma Get_Certificate_ok:
  "faults w = [] \<Longrightarrow> lookup_obj crt_key k (certificates w) = Some c \<Longrightarrow>
     Get_Certificate k w = (Inr c, w\<lparr>calls := calls w @ [GetCertificate k]\<rparr>)"
  by (simp add: Get_Certificate_def issue_no_faults)

lemma Get_Certificate_missing:
  "faults w = [] \<Longrightarrow> lookup_obj crt_key k (certificates w) = None \<Longrightarrow>
     Get_Certificate k w = (Inl NotFound, w\<lparr>calls := calls w @ [GetCertificate k]\<rparr>)"
  by (simp add: Get_Certificate_def issue_no_faults)

lemma Get_Secret_ok:
  "faults w = [] \<Longrightarrow> lookup_obj sec_key k (secrets w) = Some s \<Longrightarrow>
     Get_Secret k w = (Inr s, w\<lparr>calls := calls w @ [GetSecret k]\<rparr>)"
  by (simp add: Get_Secret_def issue_no_faults)

lemma Get_Secret_missing:
  "faults w = [] \<Longrightarrow> lookup_obj sec_key k (secrets w) = None \<Longrightarrow>
     Get_Secret k w = (Inl NotFound, w\<lparr>calls := calls w @ [GetSecret k]\<rparr>)"
  by (simp add: Get_Secret_def issue_no_faults)

lemma Status_Update_ok:
  "faults w = [] \<Longrightarrow> lookup_obj cc_key (cc_key c) (cachedCerts w) \<noteq> None \<Longrightarrow>
     Status_Update at c w =
       (None, w\<lparr>calls := calls w @ [StatusUpdate at (cc_key c) (Status c)],
                cachedCerts := replace_obj cc_key (cc_key c) (\<lambda>x. x\<lparr>Status := Status c\<rparr>) (cachedCerts w)\<rparr>)"
  by (auto simp: Status_Update_def issue_no_faults)

lemma cc_key_Status_update [simp]: "cc_key (Status_update g c) = cc_key c"
  by (simp add: cc_key_def)

lemma lookup_status_replaced:
  "lookup_obj cc_key k (replace_obj cc_key k' (Status_update g) xs) =
     (if k = k' then map_option (Status_update g) (lookup_obj cc_key k xs)
      else lookup_obj cc_key k xs)"
  by (subst lookup_obj_replace) (simp_all add: cc_key_def)

lemma Reconcile_sync_conflict:
  assumes "faults w = []"
    and "lookup_obj cc_key (cc_key c) (cachedCerts w) = Some stored"
    and "sec_Data us ''tls.crt'' \<noteq> None" and "sec_Data us ''tls.key'' \<noteq> None"
    and "lookup_obj sec_key (Namespace c, SecretName (Spec c)) (secrets w) = Some foreign"
    and "sec_Labels foreign SyncedLabelKey = None"
  shows "\<exists>w'. Reconcile_sync c uc us w = ((Result_zero, None), w') \<and> secrets w' = secrets w \<and>
           lookup_obj cc_key (cc_key c) (cachedCerts w') =
             Some (stored\<lparr>Status := (Status c)\<lparr>State := CachedCertificateStateError\<rparr>\<rparr>)"
proof -
  obtain target where t: "genSecretForSync (Some c) (Some uc) (Some us) = Inr target"
    and tk: "sec_key target = (Namespace c, SecretName (Spec c))"
    and td: "sec_Data target = sec_Data us"
    by (simp add: genSecretForSync_def Let_def sec_key_def)
  have v: "validateSecret (Some target) = None"
    using assms(3,4) td by (auto simp: validateSecret_def)
  have u: "upsertTargetSecret target w =
     (Some (ErrorsNew ''refusing to update a secret not created by the controller''),
      w\<lparr>calls := calls w @ [GetSecret (sec_key target)]\<rparr>)"
    using assms(1,5,6) tk by (intro upsertTargetSecret_conflict) simp_all
  show ?thesis
    using assms(1,2)
    by (simp add: Reconcile_sync_def t v u Let_def Status_Update_ok lookup_status_replaced)
qed

lemma getUpstreamSecret_ok:
  "faults w = [] \<Longrightarrow> crt_secretName uc = Present sn \<Longrightarrow> sn \<noteq> [] \<Longrightarrow>
   lookup_obj sec_key (crt_Namespace uc, sn) (secrets w) = Some us \<Longrightarrow>
     getUpstreamSecret uc w = (Inr us, w\<lparr>calls := calls w @ [GetSecret (crt_Namespace uc, sn)]\<rparr>)"
  by (simp add: getUpstreamSecret_def Get_Secret_ok)

lemma Reconcile_secret_conflict:
  assumes nf: "faults w = []"
    and st: "lookup_obj cc_key (cc_key c) (cachedCerts w) = Some stored"
    and sn: "crt_secretName uc = Present sn" "sn \<noteq> []"
    and us: "lookup_obj sec_key (crt_Namespace uc, sn) (secrets w) = Some us"
    and data: "sec_Data us ''tls.crt'' \<noteq> None" "sec_Data us ''tls.key'' \<noteq> None"
    and fo: "lookup_obj sec_key (Namespace c, SecretName (Spec c)) (secrets w) = Some foreign"
      "sec_Labels foreign SyncedLabelKey = None"
  shows "\<exists>w' stored'. Reconcile_secret c uc w = ((Result_zero, None), w') \<and>
           secrets w' = secrets w \<and>
           lookup_obj cc_key (cc_key c) (cachedCerts w') = Some stored' \<and>
           State (Status stored') = CachedCertificateStateError"
proof -
  let ?w1 = "w\<lparr>calls := calls w @ [GetSecret (crt_Namespace uc, sn)]\<rparr>"
  have g: "getUpstreamSecret uc w = (Inr us, ?w1)"
    using nf sn us by (rule getUpstreamSecret_ok)
  show ?thesis
  proof (cases "UpstreamReady (Status c)")
    case True
    have "\<exists>w'. Reconcile_sync c uc us ?w1 = ((Result_zero, None), w') \<and> secrets w' = secrets ?w1 \<and>
           lookup_obj cc_key (cc_key c) (cachedCerts w') =
             Some (stored\<lparr>Status := (Status c)\<lparr>State := CachedCertificateStateError\<rparr>\<rparr>)"
      using nf st data fo by (intro Reconcile_sync_conflict) simp_all
    then show ?thesis
      using True g by (auto simp: Reconcile_secret_def)
  next
    case False
    let ?c = "c\<lparr>Status := (Status c)\<lparr>UpstreamReady := True\<rparr>\<rparr>"
    let ?w2 = "?w1\<lparr>calls := calls ?w1 @ [StatusUpdate UpstreamReadyFlag (cc_key ?c) (Status ?c)],
                cachedCerts := replace_obj cc_key (cc_key ?c) (\<lambda>x. x\<lparr>Status := Status ?c\<rparr>) (cachedCerts ?w1)\<rparr>"
    have u: "Status_Update UpstreamReadyFlag ?c ?w1 = (None, ?w2)"
      using nf st by (intro Status_Update_ok) simp_all
    have "\<exists>w'. Reconcile_sync ?c uc us ?w2 = ((Result_zero, None), w') \<and> secrets w' = secrets ?w2 \<and>
           lookup_obj cc_key (cc_key ?c) (cachedCerts w') =
             Some ((stored\<lparr>Status := Status ?c\<rparr>)\<lparr>Status := (Status ?c)\<lparr>State := CachedCertificateStateError\<rparr>\<rparr>)"
      using nf st data fo by (intro Reconcile_sync_conflict) (simp_all add: lookup_status_replaced)
    then show ?thesis
      using False g u by (auto simp: Reconcile_secret_def Let_def)
  qed
qed

lemma Reconcile_conflict:
  assumes nf: "faults w = []"
    and cc: "lookup_obj cc_key req (cachedCerts w) = Some cc"
    and r: "UpstreamRef (Status (with_defaults ns cc)) = Some r"
    and uc: "lookup_obj crt_key (ref_Namespace r, ref_Name r) (certificates w) = Some uc"
    and dns: "crt_dnsNames uc = Present un" "slicesEqualAfterSort un (DNSNames (Spec cc))"
    and sn: "crt_secretName uc = Present sn" "sn \<noteq> []"
    and us: "lookup_obj sec_key (crt_Namespace uc, sn) (secrets w) = Some us"
    and data: "sec_Data us ''tls.crt'' \<noteq> None" "sec_Data us ''tls.key'' \<noteq> None"
    and fo: "lookup_obj sec_key (Namespace cc, SecretName (Spec (with_defaults ns cc))) (secrets w) = Some foreign"
      "sec_Labels foreign SyncedLabelKey = None"
  shows "\<exists>w' stored'. Reconcile ns req w = ((Result_zero, None), w') \<and>
           secrets w' = secrets w \<and>
           lookup_obj cc_key req (cachedCerts w') = Some stored' \<and>
           State (Status stored') = CachedCertificateStateError"
proof -
  let ?c = "with_defaults ns cc"
  let ?w1 = "w\<lparr>calls := calls w @ [GetCachedCertificate req]\<rparr>"
  let ?w2 = "?w1\<lparr>calls := calls ?w1 @ [GetCertificate (ref_Namespace r, ref_Name r)]\<rparr>"
  have k: "cc_key cc = req" using cc by (rule lookup_obj_key)
  have g1: "Get_CachedCertificate req w = (Inr cc, ?w1)"
    using nf cc by (rule Get_CachedCertificate_ok)
  have g2: "getUpstreamCertificate ?c ?w1 = (Inr uc, ?w2)"
    using nf uc r by (simp add: getUpstreamCertificate_def Get_Certificate_ok)
  have "\<exists>w' stored'. Reconcile_secret ?c uc ?w2 = ((Result_zero, None), w') \<and>
           secrets w' = secrets ?w2 \<and>
           lookup_obj cc_key (cc_key ?c) (cachedCerts w') = Some stored' \<and>
           State (Status stored') = CachedCertificateStateError"
    using nf cc k sn us data fo
    by (intro Reconcile_secret_conflict [where stored = cc and sn = sn and us = us and foreign = foreign])
      simp_all
  then show ?thesis
    using g1 g2 dns k
    by (auto simp: Reconcile_def Reconcile_upstream_def Reconcile_dnsNames_def)
qed

section \<open>The comparison of DNS names and the stale binding\<close>

lemma list_all_upt_nth:
  "length xs = length ys \<Longrightarrow>
     list_all (\<lambda>i. ys ! i = xs ! i) [0..<length xs] \<longleftrightarrow> xs = ys"
proof -
  assume len: "length xs = length ys"
  have "list_all (\<lambda>i. ys ! i = xs ! i) [0..<length xs] \<longleftrightarrow> (\<forall>i<length xs. ys ! i = xs ! i)"
    by (auto simp: list_all_iff)
  also have "\<dots> \<longleftrightarrow> (\<forall>i<length xs. xs ! i = ys ! i)"
    by auto
  also have "\<dots> \<longleftrightarrow> xs = ys"
    using len by (simp add: list_eq_iff_nth_eq)
  finally show ?thesis .
qed

lemma slicesEqualAfterSort_single: "slicesEqualAfterSort [a] [b] \<longleftrightarrow> a = b"
  by (simp add: slicesEqualAfterSort_def)

lemma slicesEqualAfterSort_iff: "slicesEqualAfterSort x y \<longleftrightarrow> mset x = mset y"
proof (cases "length x = length y")
  case False
  then have "mset x \<noteq> mset y" by (auto dest: mset_eq_length)
  with False show ?thesis by (simp add: slicesEqualAfterSort_def)
next
  case len: True
  show ?thesis
  proof (cases "length x = 1")
    case True
    then obtain a where x: "x = [a]" by (cases x) auto
    from True len obtain b where y: "y = [b]" by (cases y) auto
    show ?thesis unfolding x y slicesEqualAfterSort_single by simp
  next
    case False
    have "slicesEqualAfterSort x y \<longleftrightarrow>
        list_all (\<lambda>i. sort y ! i = sort x ! i) [0..<length (sort x)]"
      using len False by (simp add: slicesEqualAfterSort_def Let_def)
    also have "\<dots> \<longleftrightarrow> sort x = sort y"
      using len by (intro list_all_upt_nth) simp
    also have "\<dots> \<longleftrightarrow> mset x = mset y"
    proof
      assume "sort x = sort y"
      then have "mset (sort x) = mset (sort y)" by simp
      then show "mset x = mset y" by simp
    next
      assume "mset x = mset y"
      then show "sort x = sort y" by (rule sort_mset_eq)
    qed
    finally show ?thesis .
  qed
qed

lemma status_reset_eq:
  "s\<lparr>State := a, UpstreamReady := b, UpstreamRef := c\<rparr> = \<lparr>UpstreamReady = b, UpstreamRef = c, State = a\<rparr>"
  by (cases s) simp

lemma Status_Update_cases:
  assumes "lookup_obj cc_key (cc_key c) (cachedCerts w) \<noteq> None"
  shows "Status_Update at c w =
     (case faults w of
        [] \<Rightarrow> (None, w\<lparr>calls := calls w @ [StatusUpdate at (cc_key c) (Status c)],
                        cachedCerts := replace_obj cc_key (cc_key c) (Status_update (\<lambda>_. Status c)) (cachedCerts w)\<rparr>)
      | None # fs \<Rightarrow> (None, w\<lparr>faults := fs, calls := calls w @ [StatusUpdate at (cc_key c) (Status c)],
                        cachedCerts := replace_obj cc_key (cc_key c) (Status_update (\<lambda>_. Status c)) (cachedCerts w)\<rparr>)
      | Some msg # fs \<Rightarrow> (Some (Backend msg), w\<lparr>faults := fs, calls := calls w @ [StatusUpdate at (cc_key c) (Status c)]\<rparr>))"
  using assms by (auto simp: Status_Update_def issue_def split: list.splits option.splits)

lemma getUpstreamCertificate_found:
  assumes "getUpstreamCertificate c w = (Inr uc, w')"
  shows "calls w' = calls w @ [GetCertificate (crt_key uc)] \<and>
     lookup_obj crt_key (crt_key uc) (certificates w) = Some uc"
proof -
  from assms obtain r where r: "UpstreamRef (Status c) = Some r"
    and g: "Get_Certificate (ref_Namespace r, ref_Name r) w = (Inr uc, w')"
    by (auto simp: getUpstreamCertificate_def split: option.splits)
  from g have l: "lookup_obj crt_key (ref_Namespace r, ref_Name r) (certificates w) = Some uc"
    by (rule Get_Certificate_found)
  then have "crt_key uc = (ref_Namespace r, ref_Name r)" by (rule lookup_obj_key)
  then show ?thesis using l g by (auto dest: Get_Certificate_frame)
qed

text \<open>
  C3: in a pass where the request and its upstream certificate are fetched and the DNS
  names of the two differ as sets, the reconciler issues one more call and no other: the
  status update with state \<open>Pending\<close>, \<open>upstreamReady\<close> false and no upstream reference.
  No secret is fetched, created or updated. The update succeeds exactly when the backend
  lets that call through, and then the stored status is the one written; when it fails the
  pass returns the error with a retry after two seconds.
\<close>

theorem stale_binding_resets:
  assumes g1: "Get_CachedCertificate req w = (Inr cc, w1)"
    and g2: "getUpstreamCertificate (with_defaults ns cc) w1 = (Inr uc, w2)"
    and dns: "crt_dnsNames uc = Present un"
    and neq: "set un \<noteq> set (DNSNames (Spec cc))"
  shows "pass_calls w (snd (Reconcile ns req w)) =
           [GetCachedCertificate req, GetCertificate (crt_key uc),
            StatusUpdate StaleBinding req
              \<lparr>UpstreamReady = False, UpstreamRef = None, State = CachedCertificateStatePending\<rparr>] \<and>
         secrets (snd (Reconcile ns req w)) = secrets w \<and>
         certificates (snd (Reconcile ns req w)) = certificates w \<and>
         (case snd (fst (Reconcile ns req w)) of
            None \<Rightarrow>
              fst (fst (Reconcile ns req w)) = Result_zero \<and>
              map_option Status (lookup_obj cc_key req (cachedCerts (snd (Reconcile ns req w)))) =
                Some \<lparr>UpstreamReady = False, UpstreamRef = None, State = CachedCertificateStatePending\<rparr>
          | Some err \<Rightarrow>
              fst (fst (Reconcile ns req w)) = \<lparr>Requeue = False, RequeueAfter = 2\<rparr> \<and>
              cachedCerts (snd (Reconcile ns req w)) = cachedCerts w) \<and>
         (snd (fst (Reconcile ns req w)) = None) = (faults w2 = [] \<or> hd (faults w2) = None)"
proof -
  let ?c = "with_defaults ns cc"
  let ?reset = "\<lparr>UpstreamReady = False, UpstreamRef = None, State = CachedCertificateStatePending\<rparr>"
  let ?c' = "?c\<lparr>Status := ?reset\<rparr>"
  have stored: "lookup_obj cc_key req (cachedCerts w) = Some cc"
    using g1 by (rule Get_CachedCertificate_found)
  then have k: "cc_key cc = req" by (rule lookup_obj_key)
  have f1: "calls w1 = calls w @ [GetCachedCertificate req]" "secrets w1 = secrets w"
    "cachedCerts w1 = cachedCerts w" "certificates w1 = certificates w"
    using g1 by (auto dest: Get_CachedCertificate_frame)
  have f2: "calls w2 = calls w1 @ [GetCertificate (crt_key uc)]" "secrets w2 = secrets w1"
    "cachedCerts w2 = cachedCerts w1" "certificates w2 = certificates w1"
    using g2 by (auto dest: getUpstreamCertificate_found getUpstreamCertificate_frame)
  have ne: "\<not> slicesEqualAfterSort un (DNSNames (Spec cc))"
    using neq by (auto simp: slicesEqualAfterSort_iff dest: mset_eq_setD)
  have r: "Reconcile ns req w =
      (case Status_Update StaleBinding ?c' w2 of
         (Some err, w3) \<Rightarrow> ((\<lparr>Requeue = False, RequeueAfter = 2\<rparr>, Some err), w3)
       | (None, w3) \<Rightarrow> ((Result_zero, None), w3))"
    using g1 g2 dns ne
    by (simp add: Reconcile_def Reconcile_upstream_def Reconcile_dnsNames_def status_reset_eq)
  have ex: "lookup_obj cc_key (cc_key ?c') (cachedCerts w2) \<noteq> None"
    using stored k f1 f2 by simp
  show ?thesis
    unfolding r Status_Update_cases [OF ex]
    using stored k f1 f2
    by (auto simp: pass_calls_def lookup_status_replaced split: list.splits option.splits)
qed

lemmas demo_defs = demo_world_def demo_request_def demo_status_def demo_certificate_def
  demo_upstream_secret_def demo_target_def

theorem stale_binding_resets_witness:
  "set [''example.com''] \<noteq> set (DNSNames (Spec (demo_request [''other.example.com''] (demo_status True ''Synced'')))) \<and>
   pass_calls
     (demo_world [demo_request [''other.example.com''] (demo_status True ''Synced'')] [demo_certificate] [demo_upstream_secret])
     (snd (Reconcile ''cache'' (''testing'', ''web'')
        (demo_world [demo_request [''other.example.com''] (demo_status True ''Synced'')] [demo_certificate] [demo_upstream_secret]))) =
     [GetCachedCertificate (''testing'', ''web''), GetCertificate (''cache'', ''cc-example.com''),
      StatusUpdate StaleBinding (''testing'', ''web'')
        \<lparr>UpstreamReady = False, UpstreamRef = None, State = ''Pending''\<rparr>] \<and>
   map_option Status (lookup_obj cc_key (''testing'', ''web'')
     (cachedCerts (snd (Reconcile ''cache'' (''testing'', ''web'')
        (demo_world [demo_request [''other.example.com''] (demo_status True ''Synced'')] [demo_certificate] [demo_upstream_secret]))))) =
     Some \<lparr>UpstreamReady = False, UpstreamRef = None, State = ''Pending''\<rparr>"
proof -
  let ?cc = "demo_request [''other.example.com''] (demo_status True ''Synced'')"
  let ?w = "demo_world [?cc] [demo_certificate] [demo_upstream_secret]"
  let ?w1 = "?w\<lparr>calls := calls ?w @ [GetCachedCertificate (''testing'', ''web'')]\<rparr>"
  let ?w2 = "?w1\<lparr>calls := calls ?w1 @ [GetCertificate (''cache'', ''cc-example.com'')]\<rparr>"
  have g1: "Get_CachedCertificate (''testing'', ''web'') ?w = (Inr ?cc, ?w1)"
    by (intro Get_CachedCertificate_ok) (simp_all add: demo_defs cc_key_def)
  have r: "UpstreamRef (Status (with_defaults ''cache'' ?cc)) =
      Some \<lparr>ref_Name = ''cc-example.com'', ref_Namespace = ''cache''\<rparr>"
    by (simp add: with_defaults_UpstreamRef demo_defs)
  have "Get_Certificate (''cache'', ''cc-example.com'') ?w1 = (Inr demo_certificate, ?w2)"
    by (intro Get_Certificate_ok) (simp_all add: demo_defs crt_key_def)
  then have g2: "getUpstreamCertificate (with_defaults ''cache'' ?cc) ?w1 = (Inr demo_certificate, ?w2)"
    by (simp add: getUpstreamCertificate_def r)
  have dns: "crt_dnsNames demo_certificate = Present [''example.com'']"
    by (simp add: demo_defs)
  have neq: "set [''example.com''] \<noteq> set (DNSNames (Spec ?cc))"
    by (simp add: demo_defs)
  have f: "faults ?w2 = []" by (simp add: demo_defs)
  have c: "crt_key demo_certificate = (''cache'', ''cc-example.com'')"
    by (simp add: crt_key_def demo_defs)
  have p: "CachedCertificateStatePending = ''Pending''"
    by (simp add: CachedCertificateStatePending_def)
  note t = stale_binding_resets [OF g1 g2 dns neq, unfolded c p]
  from t f have "snd (fst (Reconcile ''cache'' (''testing'', ''web'') ?w)) = None"
    by blast
  with t neq show ?thesis
    by simp
qed

section \<open>The ownership of target secrets\<close>

text \<open>
  C4: a cluster without backend failures holds a request, its upstream certificate with
  the same DNS names, the upstream secret with both keys, and at the target name a secret
  without the marker label. Then the upsert of any secret of that name returns the
  ownership-conflict error and changes nothing but the record of its one \<open>Get\<close>; the pass
  leaves every secret as it was and stores the state \<open>Error\<close> on the request (the pass
  itself returns the result of that status update, not the upsert's error). And no pass
  on any cluster, failures or not, changes a stored secret that lacks the marker label.
\<close>

theorem foreign_target_secret_refused:
  assumes nf: "faults w = []"
    and cc: "lookup_obj cc_key req (cachedCerts w) = Some cc"
    and r: "UpstreamRef (Status (with_defaults ns cc)) = Some r"
    and uc: "lookup_obj crt_key (ref_Namespace r, ref_Name r) (certificates w) = Some uc"
    and dns: "crt_dnsNames uc = Present un" "slicesEqualAfterSort un (DNSNames (Spec cc))"
    and sn: "crt_secretName uc = Present sn" "sn \<noteq> []"
    and us: "lookup_obj sec_key (crt_Namespace uc, sn) (secrets w) = Some us"
    and data: "sec_Data us ''tls.crt'' \<noteq> None" "sec_Data us ''tls.key'' \<noteq> None"
    and fo: "lookup_obj sec_key (Namespace cc, SecretName (Spec (with_defaults ns cc))) (secrets w) = Some foreign"
      "sec_Labels foreign SyncedLabelKey = None"
  shows "(\<forall>secret w0. faults w0 = [] \<longrightarrow> secrets w0 = secrets w \<longrightarrow>
            sec_key secret = (Namespace cc, SecretName (Spec (with_defaults ns cc))) \<longrightarrow>
            upsertTargetSecret secret w0 =
              (Some (ErrorsNew ''refusing to update a secret not created by the controller''),
               w0\<lparr>calls := calls w0 @ [GetSecret (sec_key secret)]\<rparr>)) \<and>
         fst (Reconcile ns req w) = (Result_zero, None) \<and>
         secrets (snd (Reconcile ns req w)) = secrets w \<and>
         map_option (\<lambda>c. State (Status c))
           (lookup_obj cc_key req (cachedCerts (snd (Reconcile ns req w)))) =
           Some CachedCertificateStateError \<and>
         (\<forall>ns0 req0 w0. keeps_foreign (secrets w0) (secrets (snd (Reconcile ns0 req0 w0))))"
proof (intro conjI allI impI)
  fix secret and w0 :: world
  assume "faults w0 = []" "secrets w0 = secrets w"
    "sec_key secret = (Namespace cc, SecretName (Spec (with_defaults ns cc)))"
  then show "upsertTargetSecret secret w0 =
      (Some (ErrorsNew ''refusing to update a secret not created by the controller''),
       w0\<lparr>calls := calls w0 @ [GetSecret (sec_key secret)]\<rparr>)"
    using fo by (intro upsertTargetSecret_conflict) simp_all
next
  fix ns0 req0 and w0 :: world
  show "keeps_foreign (secrets w0) (secrets (snd (Reconcile ns0 req0 w0)))"
    by (rule Reconcile_keeps [of ns0 req0 w0 "fst (Reconcile ns0 req0 w0)"]) simp
next
  obtain w' stored' where "Reconcile ns req w = ((Result_zero, None), w')"
    "secrets w' = secrets w" "lookup_obj cc_key req (cachedCerts w') = Some stored'"
    "State (Status stored') = CachedCertificateStateError"
    using Reconcile_conflict [OF assms] by blast
  then show "fst (Reconcile ns req w) = (Result_zero, None)"
    "secrets (snd (Reconcile ns req w)) = secrets w"
    "map_option (\<lambda>c. State (Status c))
           (lookup_obj cc_key req (cachedCerts (snd (Reconcile ns req w)))) =
           Some CachedCertificateStateError"
    by simp_all
qed

theorem foreign_target_secret_refused_witness:
  "sec_Labels (demo_target Map.empty) SyncedLabelKey = None \<and>
   lookup_obj sec_key (''testing'', ''web'')
     (secrets (demo_world [demo_request [''example.com''] (demo_status True ''Synced'')]
        [demo_certificate] [demo_upstream_secret, demo_target Map.empty])) =
     Some (demo_target Map.empty) \<and>
   fst (Reconcile ''cache'' (''testing'', ''web'')
     (demo_world [demo_request [''example.com''] (demo_status True ''Synced'')]
        [demo_certificate] [demo_upstream_secret, demo_target Map.empty])) = (Result_zero, None) \<and>
   secrets (snd (Reconcile ''cache'' (''testing'', ''web'')
     (demo_world [demo_request [''example.com''] (demo_status True ''Synced'')]
        [demo_certificate] [demo_upstream_secret, demo_target Map.empty]))) =
     [demo_upstream_secret, demo_target Map.empty] \<and>
   map_option (\<lambda>c. State (Status c))
     (lookup_obj cc_key (''testing'', ''web'')
        (cachedCerts (snd (Reconcile ''cache'' (''testing'', ''web'')
           (demo_world [demo_request [''example.com''] (demo_status True ''Synced'')]
              [demo_certificate] [demo_upstream_secret, demo_target Map.empty]))))) =
     Some ''Error''"
proof -
  let ?cc = "demo_request [''example.com''] (demo_status True ''Synced'')"
  let ?w = "demo_world [?cc] [demo_certificate] [demo_upstream_secret, demo_target Map.empty]"
  let ?r = "\<lparr>ref_Name = ''cc-example.com'', ref_Namespace = ''cache''\<rparr>"
  have nf: "faults ?w = []" by (simp add: demo_defs)
  have cc: "lookup_obj cc_key (''testing'', ''web'') (cachedCerts ?w) = Some ?cc"
    by (simp add: demo_defs cc_key_def)
  have r: "UpstreamRef (Status (with_defaults ''cache'' ?cc)) = Some ?r"
    by (simp add: with_defaults_UpstreamRef demo_defs)
  have uc: "lookup_obj crt_key (ref_Namespace ?r, ref_Name ?r) (certificates ?w) = Some demo_certificate"
    by (simp add: demo_defs crt_key_def)
  have dns: "crt_dnsNames demo_certificate = Present [''example.com'']"
    "slicesEqualAfterSort [''example.com''] (DNSNames (Spec ?cc))"
    by (simp_all add: demo_defs slicesEqualAfterSort_single)
  have sn: "crt_secretName demo_certificate = Present ''cc-example.com''" "''cc-example.com'' \<noteq> []"
    by (simp_all add: demo_defs)
  have us: "lookup_obj sec_key (crt_Namespace demo_certificate, ''cc-example.com'') (secrets ?w) =
      Some demo_upstream_secret"
    by (simp add: demo_defs sec_key_def)
  have data: "sec_Data demo_upstream_secret ''tls.crt'' \<noteq> None"
    "sec_Data demo_upstream_secret ''tls.key'' \<noteq> None"
    by (simp_all add: demo_defs)
  have fo: "lookup_obj sec_key (Namespace ?cc, SecretName (Spec (with_defaults ''cache'' ?cc))) (secrets ?w) =
      Some (demo_target Map.empty)"
    "sec_Labels (demo_target Map.empty) SyncedLabelKey = None"
    by (simp_all add: with_defaults_SecretName demo_defs sec_key_def)
  have k: "(Namespace ?cc, SecretName (Spec (with_defaults ''cache'' ?cc))) = (''testing'', ''web'')"
    by (simp add: with_defaults_SecretName demo_defs)
  have s: "secrets ?w = [demo_upstream_secret, demo_target Map.empty]"
    by (simp add: demo_world_def)
  have e: "CachedCertificateStateError = ''Error''"
    by (simp add: CachedCertificateStateError_def)
  note t = foreign_target_secret_refused [OF nf cc r uc dns sn us data fo, unfolded e s]
  from t fo [unfolded k s] s show ?thesis by simp
qed

lemma go_index_not_true: "go_index m k \<noteq> ''true'' \<longleftrightarrow> m k \<noteq> Some ''true''"
  by (auto simp: go_index_def split: option.splits)

text \<open>
  C10: ownership is decided by the presence of the marker key alone. Without backend
  failures, an existing secret that has the key, whatever its value, is replaced as a
  whole by the new one and no error is returned; the ownership-conflict error is returned,
  and the secrets stay as they are, exactly when the key is absent. The predicate of the
  fan-out watch instead tests whether the value of the marker label is \<open>true\<close>.
\<close>

theorem upsert_owned_by_label_presence:
  assumes "faults w = []"
    and "lookup_obj sec_key (sec_key secret) (secrets w) = Some existing"
  shows "(case sec_Labels existing SyncedLabelKey of
            Some v \<Rightarrow>
              fst (upsertTargetSecret secret w) = None \<and>
              lookup_obj sec_key (sec_key secret) (secrets (snd (upsertTargetSecret secret w))) = Some secret
          | None \<Rightarrow>
              fst (upsertTargetSecret secret w) =
                Some (ErrorsNew ''refusing to update a secret not created by the controller'') \<and>
              secrets (snd (upsertTargetSecret secret w)) = secrets w) \<and>
         namespaceAndLabelsPredicate CacheNamespace object =
           (sec_Namespace object = CacheNamespace \<and>
            go_index (sec_Annotations object) CertificateNameAnnotationKey \<noteq> [] \<and>
            sec_Labels object SyncedLabelKey \<noteq> Some ''true'')"
proof -
  have "lookup_obj sec_key (sec_key secret)
          (replace_obj sec_key (sec_key secret) (\<lambda>_. secret) (secrets w)) = Some secret"
    using assms(2) by (simp add: lookup_obj_replace)
  then show ?thesis
    using assms
    by (simp add: upsertTargetSecret_conflict upsertTargetSecret_owned
        namespaceAndLabelsPredicate_def go_index_not_true split: option.splits)
qed

theorem upsert_owned_by_label_presence_witness:
  "sec_Labels (demo_labelled ''false'') SyncedLabelKey = Some ''false'' \<and>
   lookup_obj sec_key (sec_key (demo_labelled ''true''))
     (secrets (demo_world [] [] [demo_labelled ''false''])) = Some (demo_labelled ''false'') \<and>
   fst (upsertTargetSecret (demo_labelled ''true'') (demo_world [] [] [demo_labelled ''false''])) = None \<and>
   lookup_obj sec_key (sec_key (demo_labelled ''true''))
     (secrets (snd (upsertTargetSecret (demo_labelled ''true'') (demo_world [] [] [demo_labelled ''false''])))) =
     Some (demo_labelled ''true'') \<and>
   namespaceAndLabelsPredicate ''cache'' (demo_labelled ''false'')"
proof -
  let ?w = "demo_world [] [] [demo_labelled ''false'']"
  have f: "faults ?w = []" by (simp add: demo_world_def)
  have l: "lookup_obj sec_key (sec_key (demo_labelled ''true'')) (secrets ?w) = Some (demo_labelled ''false'')"
    by (simp add: demo_world_def demo_labelled_def sec_key_def)
  have v: "sec_Labels (demo_labelled ''false'') SyncedLabelKey = Some ''false''"
    by (simp add: demo_labelled_def)
  have a: "go_index (sec_Annotations (demo_labelled ''false'')) CertificateNameAnnotationKey \<noteq> []"
    by (simp add: demo_labelled_def demo_upstream_secret_def go_index_def)
  have n: "sec_Namespace (demo_labelled ''false'') = ''cache''"
    by (simp add: demo_labelled_def demo_upstream_secret_def)
  show ?thesis
    using upsert_owned_by_label_presence [OF f l, of "''cache''" "demo_labelled ''false''"] l v a n
    by simp
qed

section \<open>The calls of a pass\<close>

lemma extends_by_refl [simp]: "extends_by P xs xs"
  by (simp add: extends_by_def)

lemma call_ok_simps [simp]:
  "call_ok s0 (GetCachedCertificate k)"
  "call_ok s0 (GetCertificate k)"
  "call_ok s0 (CreateCertificate c)"
  "call_ok s0 (GetSecret k)"
  "call_ok s0 (CreateSecret s)"
  "call_ok s0 (UpdateSecret s)"
  "call_ok s0 (ListCachedCertificates n)"
  "call_ok s0 (StatusUpdate at k st) = write_ok s0 at st"
  "\<not> call_ok s0 (StatusPatch k p)"
  by (simp_all add: call_ok_def)

lemma upsertTargetSecret_calls:
  "upsertTargetSecret secret w = (r, w') \<Longrightarrow> extends_by (call_ok s0) (calls w) (calls w')"
  by (auto simp: upsertTargetSecret_def extends_by_def split: prod.splits sum.splits if_splits
      dest!: Get_Secret_frame Create_Secret_frame Update_Secret_frame)

lemma getUpstreamSecret_calls:
  "getUpstreamSecret uc w = (r, w') \<Longrightarrow> extends_by (call_ok s0) (calls w) (calls w')"
  by (auto simp: getUpstreamSecret_def extends_by_def split: field.splits if_splits
      dest!: Get_Secret_frame)

lemma getUpstreamCertificate_calls:
  "getUpstreamCertificate c w = (r, w') \<Longrightarrow> extends_by (call_ok s0) (calls w) (calls w')"
  by (auto simp: getUpstreamCertificate_def extends_by_def split: option.splits
      dest!: Get_Certificate_frame)

lemma createUpstreamCertificate_calls:
  "createUpstreamCertificate c w = (r, w') \<Longrightarrow> extends_by (call_ok s0) (calls w) (calls w')"
  by (auto simp: createUpstreamCertificate_def extends_by_def split: option.splits
      dest!: Create_Certificate_frame)

lemma Reconcile_sync_calls:
  "Reconcile_sync c uc us w = (r, w') \<Longrightarrow> extends_by (call_ok s0) (calls w) (calls w')"
  unfolding Reconcile_sync_def Let_def
  by (auto simp: extends_by_def write_ok_def split: sum.splits option.splits prod.splits
      dest!: upsertTargetSecret_calls [where ?s0.0 = s0] Status_Update_frame)

lemma Reconcile_secret_calls:
  "Reconcile_secret c uc w = (r, w') \<Longrightarrow> extends_by (call_ok (Status c)) (calls w) (calls w')"
  unfolding Reconcile_secret_def Let_def
  by (auto simp: extends_by_def write_ok_def split: sum.splits option.splits prod.splits if_splits
      dest!: Reconcile_sync_calls [where ?s0.0 = "Status c"]
        getUpstreamSecret_calls [where ?s0.0 = "Status c"] Status_Update_frame)

lemma Reconcile_dnsNames_calls:
  "Reconcile_dnsNames c uc w = (r, w') \<Longrightarrow> extends_by (call_ok (Status c)) (calls w) (calls w')"
  unfolding Reconcile_dnsNames_def Let_def
  by (auto simp: extends_by_def write_ok_def split: field.splits option.splits prod.splits if_splits
      dest!: Reconcile_secret_calls Status_Update_frame)

lemma Reconcile_upstream_calls:
  "Reconcile_upstream c w = (r, w') \<Longrightarrow> extends_by (call_ok (Status c)) (calls w) (calls w')"
  unfolding Reconcile_upstream_def
  by (auto simp: extends_by_def write_ok_def split: sum.splits option.splits prod.splits if_splits
      dest!: Reconcile_dnsNames_calls Status_Update_frame
        getUpstreamCertificate_calls [where ?s0.0 = "Status c"]
        createUpstreamCertificate_calls [where ?s0.0 = "Status c"])

lemmas eval_defs =
  Reconcile_def Reconcile_upstream_def Reconcile_dnsNames_def Reconcile_secret_def Reconcile_sync_def
  getUpstreamCertificate_def createUpstreamCertificate_def getUpstreamSecret_def upsertTargetSecret_def
  Get_CachedCertificate_def Get_Certificate_def Get_Secret_def Create_Certificate_def Create_Secret_def
  Update_Secret_def Status_Update_def issue_def IsNotFound_def
  genSecretForSync_def validateSecret_def NewControllerRef_def
  with_defaults_def cc_key_def crt_key_def sec_key_def replace_obj_def
  slicesEqualAfterSort_single pass_calls_def Let_def Result_zero_def
  CachedCertificateStatePending_def CachedCertificateStateSynced_def CachedCertificateStateError_def

lemma extends_by_pass_calls:
  "extends_by P (calls w) (calls w') \<Longrightarrow> c \<in> set (pass_calls w w') \<Longrightarrow> P c"
  by (auto simp: extends_by_def pass_calls_def list_all_iff)

lemma write_ok_with_defaults [simp]:
  "write_ok (Status (with_defaults ns c)) at st = write_ok (Status c) at st"
  by (simp add: write_ok_def)

lemma Reconcile_status_writes:
  assumes "StatusUpdate at k st \<in> set (pass_calls w (snd (Reconcile ns req w)))"
  shows "\<exists>cc. lookup_obj cc_key req (cachedCerts w) = Some cc \<and> write_ok (Status cc) at st"
proof (cases "Get_CachedCertificate req w")
  case (Pair g w1)
  then have c1: "calls w1 = calls w @ [GetCachedCertificate req]"
    by (auto dest: Get_CachedCertificate_frame)
  show ?thesis
  proof (cases g)
    case (Inl e)
    then have "snd (Reconcile ns req w) = w1"
      using Pair by (simp add: Reconcile_def)
    then show ?thesis using assms c1 by (simp add: pass_calls_def)
  next
    case (Inr cc)
    then have l: "lookup_obj cc_key req (cachedCerts w) = Some cc"
      using Pair by (auto dest: Get_CachedCertificate_found)
    have r: "Reconcile ns req w = Reconcile_upstream (with_defaults ns cc) w1"
      using Pair Inr by (simp add: Reconcile_def)
    have "extends_by (call_ok (Status (with_defaults ns cc))) (calls w1) (calls (snd (Reconcile ns req w)))"
      unfolding r by (rule Reconcile_upstream_calls [of _ _ "fst (Reconcile_upstream (with_defaults ns cc) w1)"]) simp
    then have "extends_by (call_ok (Status (with_defaults ns cc))) (calls w) (calls (snd (Reconcile ns req w)))"
      unfolding c1 by (auto simp: extends_by_def)
    from extends_by_pass_calls [OF this assms] l show ?thesis by simp
  qed
qed

lemma Reconcile_no_patch:
  "StatusPatch k p \<notin> set (pass_calls w (snd (Reconcile ns req w)))"
proof (cases "Get_CachedCertificate req w")
  case (Pair g w1)
  then have c1: "calls w1 = calls w @ [GetCachedCertificate req]"
    by (auto dest: Get_CachedCertificate_frame)
  show ?thesis
  proof (cases g)
    case (Inl e)
    then have "snd (Reconcile ns req w) = w1"
      using Pair by (simp add: Reconcile_def)
    then show ?thesis using c1 by (simp add: pass_calls_def)
  next
    case (Inr cc)
    have r: "Reconcile ns req w = Reconcile_upstream (with_defaults ns cc) w1"
      using Pair Inr by (simp add: Reconcile_def)
    have "extends_by (call_ok (Status (with_defaults ns cc))) (calls w1) (calls (snd (Reconcile ns req w)))"
      unfolding r by (rule Reconcile_upstream_calls [of _ _ "fst (Reconcile_upstream (with_defaults ns cc) w1)"]) simp
    then have "extends_by (call_ok (Status (with_defaults ns cc))) (calls w) (calls (snd (Reconcile ns req w)))"
      unfolding c1 by (auto simp: extends_by_def)
    from extends_by_pass_calls [OF this] show ?thesis by fastforce
  qed
qed

lemma patch_ok_simps [simp]:
  "patch_ok (GetSecret k)"
  "patch_ok (ListCachedCertificates n)"
  "patch_ok (StatusPatch k p) = (p = None \<or> p = Some CachedCertificateStatePending)"
  "\<not> patch_ok (StatusUpdate at k st)"
  by (simp_all add: patch_ok_def)

lemma merge_diff_pending:
  "merge_diff cert (cert\<lparr>Status := (Status cert)\<lparr>State := CachedCertificateStatePending\<rparr>\<rparr>) =
     (if State (Status cert) = CachedCertificateStatePending then None
      else Some CachedCertificateStatePending)"
  by (simp add: merge_diff_def)

lemma patch_dependents_calls:
  "patch_dependents items w = (r, w') \<Longrightarrow> extends_by patch_ok (calls w) (calls w')"
proof (induction items arbitrary: w)
  case Nil
  then show ?case by simp
next
  case (Cons cert items)
  let ?cert = "cert\<lparr>Status := (Status cert)\<lparr>State := CachedCertificateStatePending\<rparr>\<rparr>"
  obtain e w1 where p: "Status_Patch cert ?cert w = (e, w1)"
    by (cases "Status_Patch cert ?cert w")
  then have c1: "calls w1 = calls w @ [patch_call cert]"
    by (auto simp: patch_call_def merge_diff_pending dest: Status_Patch_frame)
  have ok: "patch_ok (patch_call cert)"
    by (simp add: patch_call_def)
  show ?case
  proof (cases e)
    case (Some err)
    then have "w' = w1" using Cons.prems p by (simp add: Let_def)
    then show ?thesis using c1 ok by (simp add: extends_by_def)
  next
    case None
    then have "patch_dependents items w1 = (r, w')"
      using Cons.prems p by (simp add: Let_def)
    then have "extends_by patch_ok (calls w1) (calls w')" by (rule Cons.IH)
    then show ?thesis using c1 ok by (auto simp: extends_by_def)
  qed
qed

lemma List_CachedCertificates_frame:
  "List_CachedCertificates n w = (r, w') \<Longrightarrow>
     calls w' = calls w @ [ListCachedCertificates n] \<and> secrets w' = secrets w \<and>
     cachedCerts w' = cachedCerts w \<and> certificates w' = certificates w"
  by (auto simp: List_CachedCertificates_def split: prod.splits option.splits dest: issue_frame)

lemma UpstreamSecretReconciler_calls:
  "UpstreamSecretReconciler_Reconcile req w = (r, w') \<Longrightarrow> extends_by patch_ok (calls w) (calls w')"
  unfolding UpstreamSecretReconciler_Reconcile_def Let_def
  by (auto simp: extends_by_def split: prod.splits sum.splits if_splits
      dest!: patch_dependents_calls Get_Secret_frame List_CachedCertificates_frame)





lemma Reconcile_no_update_in_fanout:
  "StatusUpdate at k st \<notin> set (pass_calls w (snd (UpstreamSecretReconciler_Reconcile req w)))"
proof -
  have "extends_by patch_ok (calls w) (calls (snd (UpstreamSecretReconciler_Reconcile req w)))"
    by (rule UpstreamSecretReconciler_calls [of _ _ "fst (UpstreamSecretReconciler_Reconcile req w)"]) simp
  from extends_by_pass_calls [OF this] show ?thesis by fastforce
qed

text \<open>
  C8, amended: a status update the request reconciler issues after creating the upstream
  certificate, or to raise the readiness flag, carries the state that was stored on the
  request when the pass began, whatever it is; every other status update it issues carries
  \<open>Pending\<close>, \<open>Synced\<close> or \<open>Error\<close>. A status patch of the fan-out reconciler is empty
  or sets \<open>Pending\<close>. Neither reconciler issues the other's kind of status write.
\<close>

theorem persisted_states:
  "(StatusUpdate at k st \<in> set (pass_calls w (snd (Reconcile ns req w))) \<longrightarrow>
      (\<exists>cc. lookup_obj cc_key req (cachedCerts w) = Some cc \<and>
         (if at = AfterUpstreamCreate \<or> at = UpstreamReadyFlag then State st = State (Status cc)
          else State st = CachedCertificateStatePending \<or> State st = CachedCertificateStateSynced \<or>
               State st = CachedCertificateStateError))) \<and>
   (StatusPatch k p \<in> set (pass_calls w (snd (UpstreamSecretReconciler_Reconcile req w))) \<longrightarrow>
      p = None \<or> p = Some CachedCertificateStatePending) \<and>
   StatusPatch k p \<notin> set (pass_calls w (snd (Reconcile ns req w))) \<and>
   StatusUpdate at k st \<notin> set (pass_calls w (snd (UpstreamSecretReconciler_Reconcile req w)))"
proof (intro conjI impI)
  assume "StatusUpdate at k st \<in> set (pass_calls w (snd (Reconcile ns req w)))"
  from Reconcile_status_writes [OF this]
  show "\<exists>cc. lookup_obj cc_key req (cachedCerts w) = Some cc \<and>
         (if at = AfterUpstreamCreate \<or> at = UpstreamReadyFlag then State st = State (Status cc)
          else State st = CachedCertificateStatePending \<or> State st = CachedCertificateStateSynced \<or>
               State st = CachedCertificateStateError)"
    by (auto simp: write_ok_def)
next
  assume m: "StatusPatch k p \<in> set (pass_calls w (snd (UpstreamSecretReconciler_Reconcile req w)))"
  have "extends_by patch_ok (calls w) (calls (snd (UpstreamSecretReconciler_Reconcile req w)))"
    by (rule UpstreamSecretReconciler_calls [of _ _ "fst (UpstreamSecretReconciler_Reconcile req w)"]) simp
  from extends_by_pass_calls [OF this m]
  show "p = None \<or> p = Some CachedCertificateStatePending" by simp
next
  show "StatusPatch k p \<notin> set (pass_calls w (snd (Reconcile ns req w)))"
    by (rule Reconcile_no_patch)
next
  show "StatusUpdate at k st \<notin> set (pass_calls w (snd (UpstreamSecretReconciler_Reconcile req w)))"
    by (rule Reconcile_no_update_in_fanout)
qed

lemmas fanout_defs =
  UpstreamSecretReconciler_Reconcile_def List_CachedCertificates_def Status_Patch_def merge_diff_def
  certNameIndex_def go_index_def CertificateNameAnnotationKey_def patch_dependents.simps

text \<open>
  C8, as stated, fails in the create-upstream branch: a request as the API server stores
  it on creation has the empty state and no upstream reference; its first pass creates the
  upstream certificate and persists a status whose state is still the empty string.
\<close>

theorem fresh_request_state_counterexample:
  "[] \<noteq> CachedCertificateStatePending \<and> [] \<noteq> CachedCertificateStateSynced \<and>
   [] \<noteq> CachedCertificateStateError \<and>
   StatusUpdate AfterUpstreamCreate (''testing'', ''web'')
       \<lparr>UpstreamReady = False,
        UpstreamRef = Some \<lparr>ref_Name = ''cc-example.com'', ref_Namespace = ''cache''\<rparr>,
        State = []\<rparr> \<in>
     set (pass_calls
       (demo_world [demo_request [''example.com''] \<lparr>UpstreamReady = False, UpstreamRef = None, State = []\<rparr>] [] [])
       (snd (Reconcile ''cache'' (''testing'', ''web'')
          (demo_world [demo_request [''example.com''] \<lparr>UpstreamReady = False, UpstreamRef = None, State = []\<rparr>] [] [])))) \<and>
   map_option (\<lambda>c. State (Status c))
     (lookup_obj cc_key (''testing'', ''web'')
        (cachedCerts (snd (Reconcile ''cache'' (''testing'', ''web'')
          (demo_world [demo_request [''example.com''] \<lparr>UpstreamReady = False, UpstreamRef = None, State = []\<rparr>] [] []))))) =
     Some []"
  by (simp add: eval_defs demo_defs getUpstreamCertificateName_eq name_of_sorted_amended
      strings_ReplaceAll_def)

theorem persisted_states_witness:
  "StatusUpdate SecretNotFound (''testing'', ''web'') (demo_status False ''Pending'') \<in>
     set (pass_calls
       (demo_world [demo_request [''example.com''] (demo_status True ''Synced'')] [demo_certificate] [])
       (snd (Reconcile ''cache'' (''testing'', ''web'')
          (demo_world [demo_request [''example.com''] (demo_status True ''Synced'')] [demo_certificate] [])))) \<and>
   State (demo_status False ''Pending'') = CachedCertificateStatePending \<and>
   StatusPatch (''testing'', ''web'') (Some ''Pending'') \<in>
     set (pass_calls
       (demo_world [demo_request [''example.com''] (demo_status True ''Synced'')] [demo_certificate] [demo_upstream_secret])
       (snd (UpstreamSecretReconciler_Reconcile (''cache'', ''cc-example.com'')
          (demo_world [demo_request [''example.com''] (demo_status True ''Synced'')] [demo_certificate] [demo_upstream_secret])))) \<and>
   Some ''Pending'' = Some CachedCertificateStatePending"
proof -
  let ?cc = "demo_request [''example.com''] (demo_status True ''Synced'')"
  let ?w = "demo_world [?cc] [demo_certificate] []"
  let ?v = "demo_world [?cc] [demo_certificate] [demo_upstream_secret]"
  have m: "StatusUpdate SecretNotFound (''testing'', ''web'') (demo_status False ''Pending'') \<in>
     set (pass_calls ?w (snd (Reconcile ''cache'' (''testing'', ''web'') ?w)))"
    by (simp add: eval_defs demo_defs)
  have n: "StatusPatch (''testing'', ''web'') (Some ''Pending'') \<in>
     set (pass_calls ?v (snd (UpstreamSecretReconciler_Reconcile (''cache'', ''cc-example.com'') ?v)))"
    by (simp add: eval_defs fanout_defs demo_defs)
  from persisted_states [where at = SecretNotFound and k = "(''testing'', ''web'')"
      and st = "demo_status False ''Pending''" and w = ?w and ns = "''cache''"
      and req = "(''testing'', ''web'')"] m
  have a: "State (demo_status False ''Pending'') = CachedCertificateStatePending"
    by (auto simp: demo_status_def CachedCertificateStatePending_def
        CachedCertificateStateSynced_def CachedCertificateStateError_def)
  from persisted_states [where k = "(''testing'', ''web'')" and p = "Some ''Pending''"
      and w = ?v and req = "(''cache'', ''cc-example.com'')"] n
  have b: "Some ''Pending'' = Some CachedCertificateStatePending"
    by simp
  from m n a b show ?thesis by blast
qed

section \<open>The fan-out over the dependents\<close>

lemma lookup_obj_exists: "x \<in> set xs \<Longrightarrow> lookup_obj key (key x) xs \<noteq> None"
  by (induction xs) auto

lemma set_state_eq:
  "(\<lambda>stored :: CachedCertificate. stored\<lparr>Status := (Status stored)\<lparr>State := st\<rparr>\<rparr>) =
     Status_update (State_update (\<lambda>_. st))"
  by (rule ext) simp

lemma Status_Patch_ok:
  assumes "faults w = []" and "lookup_obj cc_key (cc_key cert) (cachedCerts w) \<noteq> None"
  shows "Status_Patch cert (cert\<lparr>Status := (Status cert)\<lparr>State := CachedCertificateStatePending\<rparr>\<rparr>) w =
     (None, w\<lparr>calls := calls w @ [patch_call cert],
              cachedCerts :=
                (if State (Status cert) = CachedCertificateStatePending then cachedCerts w
                 else replace_obj cc_key (cc_key cert)
                        (Status_update (State_update (\<lambda>_. CachedCertificateStatePending)))
                        (cachedCerts w))\<rparr>)"
  using assms
  by (auto simp: Status_Patch_def issue_no_faults merge_diff_pending patch_call_def set_state_eq)

lemma lookup_replaced_exists:
  "lookup_obj cc_key k (replace_obj cc_key k' (Status_update g) xs) \<noteq> None \<longleftrightarrow>
     lookup_obj cc_key k xs \<noteq> None"
  by (simp add: lookup_status_replaced)

lemma patch_dependents_ok:
  assumes "faults w = []"
    and "\<forall>c \<in> set items. lookup_obj cc_key (cc_key c) (cachedCerts w) \<noteq> None"
  shows "fst (patch_dependents items w) = (Result_zero, None) \<and>
         calls (snd (patch_dependents items w)) = calls w @ map patch_call items"
  using assms
proof (induction items arbitrary: w)
  case Nil
  then show ?case by simp
next
  case (Cons cert items)
  let ?w1 = "w\<lparr>calls := calls w @ [patch_call cert],
              cachedCerts :=
                (if State (Status cert) = CachedCertificateStatePending then cachedCerts w
                 else replace_obj cc_key (cc_key cert)
                        (Status_update (State_update (\<lambda>_. CachedCertificateStatePending)))
                        (cachedCerts w))\<rparr>"
  have p: "Status_Patch cert (cert\<lparr>Status := (Status cert)\<lparr>State := CachedCertificateStatePending\<rparr>\<rparr>) w =
      (None, ?w1)"
    using Cons.prems by (intro Status_Patch_ok) simp_all
  have "faults ?w1 = []" using Cons.prems by simp
  moreover have "\<forall>c \<in> set items. lookup_obj cc_key (cc_key c) (cachedCerts ?w1) \<noteq> None"
    using Cons.prems by (auto simp: lookup_status_replaced)
  ultimately have "fst (patch_dependents items ?w1) = (Result_zero, None) \<and>
         calls (snd (patch_dependents items ?w1)) = calls ?w1 @ map patch_call items"
    by (rule Cons.IH)
  then show ?case by (simp add: p Let_def)
qed

lemma set_pending_key [simp]: "cc_key (set_pending c) = cc_key c"
  by (simp add: set_pending_def cc_key_def)

lemma set_pending_idem [simp]: "set_pending (set_pending c) = set_pending c"
  by (simp add: set_pending_def)

lemma set_pending_same:
  "State (Status c) = CachedCertificateStatePending \<Longrightarrow> set_pending c = c"
  by (cases c) (auto simp: set_pending_def)

lemma set_pending_update:
  "Status_update (State_update (\<lambda>_. CachedCertificateStatePending)) = set_pending"
  by (rule ext) (simp add: set_pending_def)

lemma distinct_keys_same:
  "distinct (map key xs) \<Longrightarrow> x \<in> set xs \<Longrightarrow> y \<in> set xs \<Longrightarrow> key x = key y \<Longrightarrow> x = y"
  by (meson distinct_map inj_onD)

lemma patch_step_store:
  assumes d: "distinct (map cc_key store)" and m: "cert \<in> set store"
  shows "(if State (Status cert) = CachedCertificateStatePending then store
          else replace_obj cc_key (cc_key cert) set_pending store) =
         map (\<lambda>x. if cc_key x = cc_key cert then set_pending x else x) store"
proof (cases "State (Status cert) = CachedCertificateStatePending")
  case False
  then show ?thesis by (simp add: replace_obj_def)
next
  case True
  have "map (\<lambda>x. if cc_key x = cc_key cert then set_pending x else x) store = store"
  proof (rule map_idI)
    fix x assume x: "x \<in> set store"
    show "(if cc_key x = cc_key cert then set_pending x else x) = x"
    proof (cases "cc_key x = cc_key cert")
      case True
      have "x = cert" by (rule distinct_keys_same [OF d x m True])
      then show ?thesis using \<open>State (Status cert) = CachedCertificateStatePending\<close>
        by (simp add: set_pending_same)
    qed simp
  qed
  then show ?thesis using True by simp
qed

lemma patch_dependents_store:
  assumes "faults w = []"
    and "distinct (map cc_key (cachedCerts w))"
    and "set items \<subseteq> set (cachedCerts w)"
    and "distinct (map cc_key items)"
  shows "cachedCerts (snd (patch_dependents items w)) =
     map (\<lambda>x. if cc_key x \<in> cc_key ` set items then set_pending x else x) (cachedCerts w)"
  using assms
proof (induction items arbitrary: w)
  case Nil
  then show ?case by simp
next
  case (Cons cert items)
  let ?f = "\<lambda>x. if cc_key x = cc_key cert then set_pending x else x"
  let ?store1 = "map ?f (cachedCerts w)"
  let ?w1 = "w\<lparr>calls := calls w @ [patch_call cert], cachedCerts := ?store1\<rparr>"
  have m: "cert \<in> set (cachedCerts w)" using Cons.prems(3) by simp
  have p: "Status_Patch cert (cert\<lparr>Status := (Status cert)\<lparr>State := CachedCertificateStatePending\<rparr>\<rparr>) w =
      (None, ?w1)"
    using Status_Patch_ok [OF Cons.prems(1) lookup_obj_exists [OF m],
        unfolded set_pending_update patch_step_store [OF Cons.prems(2) m]] .
  have keys: "map cc_key ?store1 = map cc_key (cachedCerts w)"
    by (simp add: comp_def)
  have sub: "set items \<subseteq> set ?store1"
  proof
    fix y assume y: "y \<in> set items"
    then have "cc_key y \<noteq> cc_key cert" using Cons.prems(4) by (auto simp: image_iff)
    then have "?f y = y" by simp
    moreover have "y \<in> set (cachedCerts w)" using y Cons.prems(3) by auto
    ultimately have "y \<in> ?f ` set (cachedCerts w)" by (intro image_eqI [where x = y]) simp_all
    then show "y \<in> set ?store1" by simp
  qed
  have k1: "map cc_key (cachedCerts ?w1) = map cc_key (cachedCerts w)"
    by (simp add: comp_def)
  have d1: "distinct (map cc_key (cachedCerts ?w1))"
    unfolding k1 by (rule Cons.prems(2))
  have s1: "set items \<subseteq> set (cachedCerts ?w1)" using sub by simp
  have f1: "faults ?w1 = []" using Cons.prems(1) by simp
  have i1: "distinct (map cc_key items)" using Cons.prems(4) by simp
  have "cachedCerts (snd (patch_dependents items ?w1)) =
     map (\<lambda>x. if cc_key x \<in> cc_key ` set items then set_pending x else x) (cachedCerts ?w1)"
    by (rule Cons.IH [OF f1 d1 s1 i1])
  then have "cachedCerts (snd (patch_dependents (cert # items) w)) =
     map (\<lambda>x. if cc_key x \<in> cc_key ` set items then set_pending x else x) ?store1"
    by (simp add: p Let_def)
  also have "\<dots> = map (\<lambda>x. if cc_key x \<in> cc_key ` set (cert # items) then set_pending x else x) (cachedCerts w)"
    by (simp add: comp_def)
  finally show ?case .
qed

lemma fanout_store:
  assumes "faults w = []"
    and "lookup_obj sec_key req (secrets w) = Some secret"
    and "go_index (sec_Annotations secret) CertificateNameAnnotationKey = certName"
    and "certName \<noteq> []"
    and d: "distinct (map cc_key (cachedCerts w))"
  shows "cachedCerts (snd (UpstreamSecretReconciler_Reconcile req w)) =
     map (\<lambda>c. if certName \<in> set (certNameIndex c) then set_pending c else c) (cachedCerts w)"
proof -
  let ?dep = "\<lambda>c. certName \<in> set (certNameIndex c)"
  let ?items = "filter ?dep (cachedCerts w)"
  let ?w2 = "w\<lparr>calls := calls w @ [GetSecret req, ListCachedCertificates certName]\<rparr>"
  have r: "UpstreamSecretReconciler_Reconcile req w = patch_dependents ?items ?w2"
    using assms(1-4)
    by (simp add: UpstreamSecretReconciler_Reconcile_def Get_Secret_ok
        List_CachedCertificates_def issue_no_faults)
  have "cachedCerts (snd (patch_dependents ?items ?w2)) =
     map (\<lambda>x. if cc_key x \<in> cc_key ` set ?items then set_pending x else x) (cachedCerts ?w2)"
    using assms(1) d by (intro patch_dependents_store) (simp_all add: distinct_map_filter)
  also have "\<dots> = map (\<lambda>c. if ?dep c then set_pending c else c) (cachedCerts w)"
  proof -
    have "(cc_key x \<in> cc_key ` set ?items) = ?dep x" if "x \<in> set (cachedCerts w)" for x
    proof
      assume "cc_key x \<in> cc_key ` set ?items"
      then obtain y where y: "y \<in> set (cachedCerts w)" "?dep y" "cc_key x = cc_key y" by auto
      then have "x = y" using d that by (meson distinct_keys_same)
      then show "?dep x" using y by simp
    next
      assume "?dep x"
      then show "cc_key x \<in> cc_key ` set ?items" using that by auto
    qed
    then show ?thesis by simp
  qed
  finally show ?thesis unfolding r .
qed

text \<open>
  C5, as stated, fails: for a dependent whose state is \<open>Pending\<close> already the loop still
  calls \<open>Status().Patch\<close>; the patch it sends is empty.
\<close>

theorem fanout_patches_pending_counterexample:
  "State (Status (demo_request [''example.com''] (demo_status True ''Pending''))) =
     CachedCertificateStatePending \<and>
   pass_calls
     (demo_world [demo_request [''example.com''] (demo_status True ''Pending'')] [demo_certificate] [demo_upstream_secret])
     (snd (UpstreamSecretReconciler_Reconcile (''cache'', ''cc-example.com'')
        (demo_world [demo_request [''example.com''] (demo_status True ''Pending'')] [demo_certificate] [demo_upstream_secret]))) =
   [GetSecret (''cache'', ''cc-example.com''), ListCachedCertificates ''cc-example.com'',
    StatusPatch (''testing'', ''web'') None]"
  by (simp add: eval_defs fanout_defs demo_defs)

text \<open>
  C5, amended: when the backend does not fail and the changed secret carries the
  certificate-name annotation, the fan-out reconciler issues one status patch for each
  dependent the index lists, in the order of the list and whatever the state of the
  dependent: the patch sets \<open>Pending\<close> for a dependent in another state and is empty for a
  dependent that is \<open>Pending\<close> already. With one stored object per name, the requests
  afterwards are the ones before with every dependent set to \<open>Pending\<close>.
\<close>

theorem fanout_patches_every_dependent:
  assumes "faults w = []"
    and "lookup_obj sec_key req (secrets w) = Some secret"
    and "go_index (sec_Annotations secret) CertificateNameAnnotationKey = certName"
    and "certName \<noteq> []"
  shows "fst (UpstreamSecretReconciler_Reconcile req w) = (Result_zero, None) \<and>
         pass_calls w (snd (UpstreamSecretReconciler_Reconcile req w)) =
           [GetSecret req, ListCachedCertificates certName] @
           map patch_call (filter (\<lambda>c. certName \<in> set (certNameIndex c)) (cachedCerts w)) \<and>
         (distinct (map cc_key (cachedCerts w)) \<longrightarrow>
            cachedCerts (snd (UpstreamSecretReconciler_Reconcile req w)) =
              map (\<lambda>c. if certName \<in> set (certNameIndex c) then set_pending c else c) (cachedCerts w))"
proof -
  let ?items = "filter (\<lambda>c. certName \<in> set (certNameIndex c)) (cachedCerts w)"
  let ?w2 = "w\<lparr>calls := calls w @ [GetSecret req, ListCachedCertificates certName]\<rparr>"
  have r: "UpstreamSecretReconciler_Reconcile req w = patch_dependents ?items ?w2"
    using assms
    by (simp add: UpstreamSecretReconciler_Reconcile_def Get_Secret_ok
        List_CachedCertificates_def issue_no_faults)
  have "\<forall>c \<in> set ?items. lookup_obj cc_key (cc_key c) (cachedCerts ?w2) \<noteq> None"
    by (simp add: lookup_obj_exists)
  moreover have "faults ?w2 = []" using assms(1) by simp
  ultimately have "fst (patch_dependents ?items ?w2) = (Result_zero, None) \<and>
         calls (snd (patch_dependents ?items ?w2)) = calls ?w2 @ map patch_call ?items"
    by (intro patch_dependents_ok)
  then have "fst (UpstreamSecretReconciler_Reconcile req w) = (Result_zero, None) \<and>
         pass_calls w (snd (UpstreamSecretReconciler_Reconcile req w)) =
           [GetSecret req, ListCachedCertificates certName] @ map patch_call ?items"
    unfolding r by (simp add: pass_calls_def)
  then show ?thesis using fanout_store [OF assms] by blast
qed

theorem fanout_patches_every_dependent_witness:
  "lookup_obj sec_key (''cache'', ''cc-example.com'')
     (secrets (demo_world [demo_request [''example.com''] (demo_status True ''Pending'')] [demo_certificate] [demo_upstream_secret])) =
     Some demo_upstream_secret \<and>
   go_index (sec_Annotations demo_upstream_secret) CertificateNameAnnotationKey = ''cc-example.com'' \<and>
   fst (UpstreamSecretReconciler_Reconcile (''cache'', ''cc-example.com'')
        (demo_world [demo_request [''example.com''] (demo_status True ''Pending'')] [demo_certificate] [demo_upstream_secret])) =
     (Result_zero, None) \<and>
   pass_calls
     (demo_world [demo_request [''example.com''] (demo_status True ''Pending'')] [demo_certificate] [demo_upstream_secret])
     (snd (UpstreamSecretReconciler_Reconcile (''cache'', ''cc-example.com'')
        (demo_world [demo_request [''example.com''] (demo_status True ''Pending'')] [demo_certificate] [demo_upstream_secret]))) =
   [GetSecret (''cache'', ''cc-example.com''), ListCachedCertificates ''cc-example.com'',
    patch_call (demo_request [''example.com''] (demo_status True ''Pending''))] \<and>
   cachedCerts (snd (UpstreamSecretReconciler_Reconcile (''cache'', ''cc-example.com'')
        (demo_world [demo_request [''example.com''] (demo_status True ''Pending'')] [demo_certificate] [demo_upstream_secret]))) =
     [set_pending (demo_request [''example.com''] (demo_status True ''Pending''))]"
proof -
  let ?cc = "demo_request [''example.com''] (demo_status True ''Pending'')"
  let ?w = "demo_world [?cc] [demo_certificate] [demo_upstream_secret]"
  have nf: "faults ?w = []" by (simp add: demo_world_def)
  have l: "lookup_obj sec_key (''cache'', ''cc-example.com'') (secrets ?w) = Some demo_upstream_secret"
    by (simp add: demo_world_def demo_upstream_secret_def sec_key_def)
  have a: "go_index (sec_Annotations demo_upstream_secret) CertificateNameAnnotationKey = ''cc-example.com''"
    by (simp add: demo_upstream_secret_def go_index_def)
  have ne: "''cc-example.com'' \<noteq> []" by simp
  have c: "cachedCerts ?w = [?cc]" by (simp add: demo_world_def)
  have i: "''cc-example.com'' \<in> set (certNameIndex ?cc)"
    by (simp add: demo_request_def demo_status_def certNameIndex_def)
  from fanout_patches_every_dependent [OF nf l a ne] l a show ?thesis
    unfolding c using i by simp
qed

end
